theory Spec2Isabelle
  imports Complex_Main
begin

section \<open>Strings, characters and the operator set\<close>

text \<open>
  JavaScript strings are modelled as \<^typ>\<open>string\<close>: a character stands for a code unit, and
  only the code units below 256 are represented (the program looks at digits, the dot
  and the four operators, and treats every other code unit alike). Indexing a string
  (\<^verbatim>\<open>raw[i]\<close>) yields a one-character string, or \<^verbatim>\<open>undefined\<close> outside the string;
  \<^verbatim>\<open>undefined\<close> is \<open>None\<close>.
\<close>

definition operators :: "string set" where
  "operators = {''+'', ''-'', ''*'', ''/''}"

text \<open>\<^verbatim>\<open>operators.has(x)\<close> for a value that may be \<^verbatim>\<open>undefined\<close>.\<close>

definition operators_has :: "string option \<Rightarrow> bool" where
  "operators_has x = (case x of None \<Rightarrow> False | Some s \<Rightarrow> s \<in> operators)"

definition is_digit :: "char \<Rightarrow> bool" where
  "is_digit c = (c \<in> set ''0123456789'')"

text \<open>\<^verbatim>\<open>/\d/.test(s)\<close>: the string contains a digit.\<close>

definition test_digit :: "string \<Rightarrow> bool" where
  "test_digit s = (\<exists>c \<in> set s. is_digit c)"

text \<open>
  \<^verbatim>\<open>/\d|\./.test(x)\<close>: the string contains a digit or a dot. The argument \<^verbatim>\<open>undefined\<close> is
  converted to the string \<^verbatim>\<open>"undefined"\<close>, which contains neither.
\<close>

definition test_digit_or_dot :: "string option \<Rightarrow> bool" where
  "test_digit_or_dot x =
     (case x of None \<Rightarrow> False | Some s \<Rightarrow> (\<exists>c \<in> set s. is_digit c \<or> c = CHR ''.''))"

text \<open>\<^verbatim>\<open>raw[j]\<close> for an integer index.\<close>

definition str_at :: "string \<Rightarrow> int \<Rightarrow> string option" where
  "str_at raw j = (if 0 \<le> j \<and> j < int (length raw) then Some [raw ! nat j] else None)"

text \<open>\<^verbatim>\<open>expression.at(-1)\<close>.\<close>

definition at_last :: "string \<Rightarrow> string option" where
  "at_last s = (if s = [] then None else Some [last s])"

section \<open>Tokenizer\<close>

text \<open>
  One iteration of the \<^verbatim>\<open>for\<close> loop of \<^verbatim>\<open>tokenize\<close>, on the loop state
  \<open>(tokens, numberBuffer)\<close>.
\<close>

definition unaryMinus :: "string \<Rightarrow> nat \<Rightarrow> bool" where
  "unaryMinus raw i =
     (str_at raw (int i) = Some ''-'' \<and>
      (i = 0 \<or> operators_has (str_at raw (int i - 1))) \<and>
      test_digit_or_dot (str_at raw (int i + 1)))"

definition tokenize_body :: "string \<Rightarrow> nat \<Rightarrow> string list \<times> string \<Rightarrow> string list \<times> string" where
  "tokenize_body raw i st =
     (case st of (tokens, numberBuffer) \<Rightarrow>
        (case str_at raw (int i) of
           None \<Rightarrow> (tokens, numberBuffer)
         | Some char \<Rightarrow>
             if test_digit_or_dot (Some char) \<or> unaryMinus raw i
             then (tokens, numberBuffer @ char)
             else if char \<in> operators
             then ((if numberBuffer \<noteq> [] then tokens @ [numberBuffer] else tokens) @ [char], [])
             else (tokens, numberBuffer)))"

definition tokenize :: "string \<Rightarrow> string list" where
  "tokenize raw =
     (case fold (tokenize_body raw) [0 ..< length raw] ([], []) of
        (tokens, numberBuffer) \<Rightarrow>
          if numberBuffer \<noteq> [] then tokens @ [numberBuffer] else tokens)"

section \<open>Infix to postfix\<close>

text \<open>
  The object \<^verbatim>\<open>precedence\<close>; a key that is absent reads as \<^verbatim>\<open>undefined\<close>, and a comparison
  \<^verbatim>\<open>>=\<close> with \<^verbatim>\<open>undefined\<close> is false.
\<close>

definition precedence :: "string \<Rightarrow> nat option" where
  "precedence t =
     (if t = ''+'' \<or> t = ''-'' then Some 1
      else if t = ''*'' \<or> t = ''/'' then Some 2
      else None)"

definition prec_ge :: "string \<Rightarrow> string \<Rightarrow> bool" where
  "prec_ge s t =
     (case (precedence s, precedence t) of (Some a, Some b) \<Rightarrow> a \<ge> b | _ \<Rightarrow> False)"

text \<open>
  Arrays used as stacks keep the array order: the top of the stack is the last element.
  The inner \<^verbatim>\<open>while\<close> loop pops into the output while the top has precedence at least
  that of the incoming token.
\<close>

function pop_while :: "string \<Rightarrow> string list \<times> string list \<Rightarrow> string list \<times> string list" where
  "pop_while token (output, stack) =
     (if stack \<noteq> [] \<and> prec_ge (last stack) token
      then pop_while token (output @ [last stack], butlast stack)
      else (output, stack))"
  by pat_completeness auto
termination
  by (relation "measure (\<lambda>(t, out, st). length st)") auto

declare pop_while.simps [simp del]

definition toPostfix_body :: "string \<Rightarrow> string list \<times> string list \<Rightarrow> string list \<times> string list" where
  "toPostfix_body token st =
     (case st of (output, stack) \<Rightarrow>
        if token \<notin> operators then (output @ [token], stack)
        else (case pop_while token (output, stack) of
                (output', stack') \<Rightarrow> (output', stack' @ [token])))"

text \<open>The final loop pops the whole stack into the output.\<close>

function pop_all :: "string list \<times> string list \<Rightarrow> string list" where
  "pop_all (output, stack) =
     (if stack \<noteq> [] then pop_all (output @ [last stack], butlast stack) else output)"
  by pat_completeness auto
termination
  by (relation "measure (\<lambda>(out, st). length st)") auto

declare pop_all.simps [simp del]

definition toPostfix :: "string list \<Rightarrow> string list" where
  "toPostfix tokens = pop_all (fold toPostfix_body tokens ([], []))"

section \<open>Numbers\<close>

text \<open>
  A JavaScript number is an IEEE 754 binary64 value. A finite value is kept exactly, as
  \<open>Fin m e\<close> standing for \<open>m * 2 ^ e\<close> with \<open>m\<close> odd, or \<open>Fin 0 0\<close> for zero. The two zeros
  \<open>+0\<close> and \<open>-0\<close> are one value here: the program tells them apart nowhere (it never
  divides by a zero, and \<^verbatim>\<open>String\<close> prints both as \<^verbatim>\<open>"0"\<close>).
\<close>

datatype jsnum = NaN | PInf | NInf | Fin int int

text \<open>A value on the evaluation stack: a number, or \<^verbatim>\<open>undefined\<close> (popped from an empty array).\<close>

datatype jsval = Undefined | Num jsnum

definition number_value :: "jsval \<Rightarrow> rat option" where
  "number_value v =
     (case v of
        Num (Fin m e) \<Rightarrow>
          Some (if 0 \<le> e then of_int m * 2 ^ nat e else of_int m / 2 ^ nat (- e))
      | _ \<Rightarrow> None)"

text \<open>The number of digits of \<open>n\<close> in base \<open>b\<close>.\<close>

function ndigits :: "nat \<Rightarrow> nat \<Rightarrow> nat" where
  "ndigits b n = (if n = 0 \<or> b < 2 then 0 else Suc (ndigits b (n div b)))"
  by pat_completeness auto
termination
  by (relation "measure snd") auto

declare ndigits.simps [simp del]

function norm_dyadic :: "int \<Rightarrow> int \<Rightarrow> int \<times> int" where
  "norm_dyadic m e =
     (if m = 0 then (0, 0) else if even m then norm_dyadic (m div 2) (e + 1) else (m, e))"
  by pat_completeness auto
termination
  by (relation "measure (\<lambda>(m, e). nat \<bar>m\<bar>)") auto

declare norm_dyadic.simps [simp del]

definition mk_fin :: "int \<Rightarrow> int \<Rightarrow> jsnum" where
  "mk_fin n e = (case norm_dyadic n e of (m, e') \<Rightarrow> Fin m e')"

text \<open>\<open>ilog b p d\<close> is the integer \<open>k\<close> with \<open>b ^ k \<le> p / d < b ^ (k + 1)\<close>, for positive \<open>p\<close>, \<open>d\<close>.\<close>

definition ilog :: "nat \<Rightarrow> int \<Rightarrow> int \<Rightarrow> int" where
  "ilog b p d =
     (let k = int (ndigits b (nat p)) - int (ndigits b (nat d))
      in if (if 0 \<le> k then d * int b ^ nat k \<le> p else d \<le> p * int b ^ nat (- k))
         then k else k - 1)"

text \<open>
  Rounding of the positive fraction \<open>p / d\<close> to the nearest binary64 value, ties to the
  even significand: 53 significant bits, least exponent \<open>-1074\<close>, and infinity from
  \<open>2 ^ 1024\<close> on (the rounded value \<open>n * 2 ^ e\<close> reaches it when \<open>n\<close> has more than
  \<open>1024 - e\<close> bits).
\<close>

definition round_pos :: "int \<Rightarrow> int \<Rightarrow> jsnum" where
  "round_pos p d =
     (let e = max (ilog 2 p d - 52) (- 1074);
          P = (if e < 0 then p * 2 ^ nat (- e) else p);
          D = (if e < 0 then d else d * 2 ^ nat e);
          f = P div D;
          r = P mod D;
          n = (if 2 * r < D then f else if D < 2 * r then f + 1 else if even f then f else f + 1)
      in if 1024 < int (ndigits 2 (nat n)) + e then PInf else mk_fin n e)"

definition jsneg :: "jsnum \<Rightarrow> jsnum" where
  "jsneg x = (case x of NaN \<Rightarrow> NaN | PInf \<Rightarrow> NInf | NInf \<Rightarrow> PInf | Fin m e \<Rightarrow> Fin (- m) e)"

text \<open>The Number value for the fraction \<open>p / d\<close>, with \<open>0 < d\<close>.\<close>

definition round64 :: "int \<Rightarrow> int \<Rightarrow> jsnum" where
  "round64 p d =
     (if p = 0 then Fin 0 0
      else if 0 < p then round_pos p d
      else jsneg (round_pos (- p) d))"

text \<open>The Number value for \<open>M * 2 ^ e\<close>.\<close>

definition round_dyadic :: "int \<Rightarrow> int \<Rightarrow> jsnum" where
  "round_dyadic M e = (if 0 \<le> e then round64 (M * 2 ^ nat e) 1 else round64 M (2 ^ nat (- e)))"

definition jsadd :: "jsnum \<Rightarrow> jsnum \<Rightarrow> jsnum" where
  "jsadd x y =
     (case (x, y) of
        (NaN, _) \<Rightarrow> NaN
      | (_, NaN) \<Rightarrow> NaN
      | (PInf, NInf) \<Rightarrow> NaN
      | (NInf, PInf) \<Rightarrow> NaN
      | (PInf, _) \<Rightarrow> PInf
      | (_, PInf) \<Rightarrow> PInf
      | (NInf, _) \<Rightarrow> NInf
      | (_, NInf) \<Rightarrow> NInf
      | (Fin m1 e1, Fin m2 e2) \<Rightarrow>
          (let e = min e1 e2
           in round_dyadic (m1 * 2 ^ nat (e1 - e) + m2 * 2 ^ nat (e2 - e)) e))"

definition jssub :: "jsnum \<Rightarrow> jsnum \<Rightarrow> jsnum" where
  "jssub x y = jsadd x (jsneg y)"

definition is_negative :: "jsnum \<Rightarrow> bool" where
  "is_negative x = (case x of NInf \<Rightarrow> True | Fin m e \<Rightarrow> m < 0 | _ \<Rightarrow> False)"

definition is_zero :: "jsnum \<Rightarrow> bool" where
  "is_zero x = (case x of Fin m e \<Rightarrow> m = 0 | _ \<Rightarrow> False)"

definition jsmul :: "jsnum \<Rightarrow> jsnum \<Rightarrow> jsnum" where
  "jsmul x y =
     (case (x, y) of
        (NaN, _) \<Rightarrow> NaN
      | (_, NaN) \<Rightarrow> NaN
      | (Fin m1 e1, Fin m2 e2) \<Rightarrow> round_dyadic (m1 * m2) (e1 + e2)
      | _ \<Rightarrow>
          if is_zero x \<or> is_zero y then NaN
          else if is_negative x = is_negative y then PInf else NInf)"

text \<open>
  Division. With the two zeros identified, the sign of a quotient by zero is that of a
  division by \<open>+0\<close>; the program divides by no zero (it tests \<^verbatim>\<open>b === 0\<close> first, and its other
  divisors are the constants \<open>1e12\<close> and \<open>100\<close>).
\<close>

definition jsdiv :: "jsnum \<Rightarrow> jsnum \<Rightarrow> jsnum" where
  "jsdiv x y =
     (case (x, y) of
        (NaN, _) \<Rightarrow> NaN
      | (_, NaN) \<Rightarrow> NaN
      | (Fin m1 e1, Fin m2 e2) \<Rightarrow>
          if m2 = 0 then (if m1 = 0 then NaN else if 0 < m1 then PInf else NInf)
          else round64 (sgn m2 * m1 * 2 ^ nat (e1 - e2)) (\<bar>m2\<bar> * 2 ^ nat (e2 - e1))
      | (Fin m1 e1, _) \<Rightarrow> Fin 0 0
      | (_, Fin m2 e2) \<Rightarrow> (if is_negative x = (m2 < 0) then PInf else NInf)
      | _ \<Rightarrow> NaN)"

text \<open>\<^verbatim>\<open>Math.round\<close>: the nearest integer, a tie going up.\<close>

definition Math_round :: "jsnum \<Rightarrow> jsnum" where
  "Math_round x =
     (case x of
        Fin m e \<Rightarrow>
          if 0 \<le> e then Fin m e
          else mk_fin ((2 * m + 2 ^ nat (- e)) div 2 ^ nat (1 - e)) 0
      | _ \<Rightarrow> x)"

text \<open>\<^verbatim>\<open>Number.EPSILON\<close> is \<open>2 ^ -52\<close>; \<open>1e12\<close> is \<open>5 ^ 12 * 2 ^ 12\<close>; \<open>100\<close> is \<open>25 * 2 ^ 2\<close>.\<close>

definition EPSILON :: jsnum where
  "EPSILON = Fin 1 (- 52)"

definition num_1e12 :: jsnum where
  "num_1e12 = Fin 244140625 12"

definition num_100 :: jsnum where
  "num_100 = Fin 25 2"

text \<open>\<^verbatim>\<open>Number.isFinite\<close> and \<^verbatim>\<open>Number.isNaN\<close> convert nothing: \<^verbatim>\<open>undefined\<close> is neither.\<close>

definition isFinite :: "jsval \<Rightarrow> bool" where
  "isFinite v = (case v of Num (Fin m e) \<Rightarrow> True | _ \<Rightarrow> False)"

definition isNaN :: "jsval \<Rightarrow> bool" where
  "isNaN v = (v = Num NaN)"

text \<open>The conversion of an operand of \<^verbatim>\<open>+ - * /\<close> to a number: \<^verbatim>\<open>undefined\<close> becomes NaN.\<close>

definition toNumber :: "jsval \<Rightarrow> jsnum" where
  "toNumber v = (case v of Undefined \<Rightarrow> NaN | Num x \<Rightarrow> x)"

subsection \<open>Reading a number: \<^verbatim>\<open>Number.parseFloat\<close>\<close>

definition digit_val :: "char \<Rightarrow> nat" where
  "digit_val c = length (takeWhile (\<lambda>d. d \<noteq> c) ''0123456789'')"

definition digits_val :: "string \<Rightarrow> nat" where
  "digits_val ds = foldl (\<lambda>a c. 10 * a + digit_val c) 0 ds"

text \<open>White space among the characters below 256: TAB, LF, VT, FF, CR, SP, NBSP.\<close>

definition is_whitespace :: "char \<Rightarrow> bool" where
  "is_whitespace c = (of_char c \<in> {9, 10, 11, 12, 13, 32, 160 :: nat})"

text \<open>The exponent part \<^verbatim>\<open>e\<close>, sign, digits; zero when there is none.\<close>

definition parse_exponent :: "string \<Rightarrow> int" where
  "parse_exponent r =
     (case r of
        [] \<Rightarrow> 0
      | c # r1 \<Rightarrow>
          if c = CHR ''e'' \<or> c = CHR ''E'' then
            (case r1 of
               [] \<Rightarrow> 0
             | s # r2 \<Rightarrow>
                 if s = CHR ''-'' then
                   (if takeWhile is_digit r2 = [] then 0
                    else - int (digits_val (takeWhile is_digit r2)))
                 else if s = CHR ''+'' then int (digits_val (takeWhile is_digit r2))
                 else int (digits_val (takeWhile is_digit r1)))
          else 0)"

text \<open>
  After leading white space and an optional sign, the longest prefix that is a decimal
  literal (or \<^verbatim>\<open>Infinity\<close>) is read, and its exact value is rounded once; without such a
  prefix the result is NaN.
\<close>

definition parse_unsigned :: "string \<Rightarrow> jsnum" where
  "parse_unsigned s =
     (if take 8 s = ''Infinity'' then PInf
      else
        let ip = takeWhile is_digit s;
            r1 = dropWhile is_digit s;
            dot = (r1 \<noteq> [] \<and> hd r1 = CHR ''.'');
            fp = (if dot then takeWhile is_digit (tl r1) else []);
            r2 = (if dot then dropWhile is_digit (tl r1) else r1)
        in if ip = [] \<and> fp = [] then NaN
           else
             let x = parse_exponent r2 - int (length fp);
                 mant = int (digits_val (ip @ fp))
             in if 0 \<le> x then round64 (mant * 10 ^ nat x) 1
                else round64 mant (10 ^ nat (- x)))"

definition parseFloat :: "string \<Rightarrow> jsnum" where
  "parseFloat str =
     (let s = dropWhile is_whitespace str
      in case s of
           [] \<Rightarrow> NaN
         | c # r \<Rightarrow>
             if c = CHR ''-'' then jsneg (parse_unsigned r)
             else if c = CHR ''+'' then parse_unsigned r
             else parse_unsigned s)"

subsection \<open>Printing a number: \<^verbatim>\<open>String\<close>\<close>

definition digit_char :: "nat \<Rightarrow> char" where
  "digit_char n = ''0123456789'' ! (n mod 10)"

function digits_of :: "nat \<Rightarrow> string" where
  "digits_of n = (if n < 10 then [digit_char n] else digits_of (n div 10) @ [digit_char n])"
  by pat_completeness auto
termination
  by (relation "measure id") auto

declare digits_of.simps [simp del]

text \<open>The Number value for \<open>s * 10 ^ x\<close>.\<close>

definition round_decimal :: "int \<Rightarrow> int \<Rightarrow> jsnum" where
  "round_decimal s x = (if 0 \<le> x then round64 (s * 10 ^ nat x) 1 else round64 s (10 ^ nat (- x)))"

text \<open>
  The \<open>k\<close>-digit decimals \<open>s * 10 ^ (n0 - k)\<close> next to the positive value \<open>p / d\<close> (which lies
  in \<open>10 ^ (n0 - 1) \<le> p / d < 10 ^ n0\<close>) are the one below and the one above it. The result
  is the one that reads back as \<open>target\<close>; when both do, the nearer one, and the even one
  at equal distance.
\<close>

definition candidate :: "nat \<Rightarrow> int \<Rightarrow> int \<Rightarrow> int \<Rightarrow> jsnum \<Rightarrow> int option" where
  "candidate k p d n0 target =
     (let x = n0 - int k;
          P = (if x < 0 then p * 10 ^ nat (- x) else p);
          D = (if x < 0 then d else d * 10 ^ nat x);
          lo = P div D;
          r = P mod D;
          ok_lo = (round_decimal lo x = target);
          ok_hi = (round_decimal (lo + 1) x = target)
      in if ok_lo \<and> ok_hi
         then Some (if 2 * r < D then lo else if D < 2 * r then lo + 1
                    else if even lo then lo else lo + 1)
         else if ok_lo then Some lo
         else if ok_hi then Some (lo + 1)
         else None)"

text \<open>
  The least number of digits \<open>k\<close> with such a decimal, tried from \<open>k\<close> upwards; seventeen
  digits tell any two binary64 values apart, so the search is cut there (the first
  argument counts the remaining tries) and then takes the decimal below. The result is
  \<open>(k, s)\<close>.
\<close>

fun shortest :: "nat \<Rightarrow> nat \<Rightarrow> int \<Rightarrow> int \<Rightarrow> int \<Rightarrow> jsnum \<Rightarrow> nat \<times> int" where
  "shortest 0 k p d n0 target =
     (k, (if n0 - int k < 0 then p * 10 ^ nat (int k - n0) div d
          else p div (d * 10 ^ nat (n0 - int k))))"
| "shortest (Suc j) k p d n0 target =
     (case candidate k p d n0 target of
        Some s \<Rightarrow> (k, s)
      | None \<Rightarrow> shortest j (Suc k) p d n0 target)"

text \<open>The digits \<open>ds\<close> (there are \<open>k\<close>) with the decimal point after the first \<open>n\<close> of them.\<close>

definition format_decimal :: "string \<Rightarrow> int \<Rightarrow> string" where
  "format_decimal ds n =
     (let k = int (length ds)
      in if k \<le> n \<and> n \<le> 21 then ds @ replicate (nat (n - k)) CHR ''0''
         else if 0 < n \<and> n \<le> 21 then take (nat n) ds @ ''.'' @ drop (nat n) ds
         else if - 6 < n \<and> n \<le> 0 then ''0.'' @ replicate (nat (- n)) CHR ''0'' @ ds
         else
           let ex = (if n - 1 < 0 then ''-'' else ''+'') @ digits_of (nat \<bar>n - 1\<bar>)
           in if k = 1 then ds @ ''e'' @ ex
              else take 1 ds @ ''.'' @ drop 1 ds @ ''e'' @ ex)"

definition positive_toString :: "int \<Rightarrow> int \<Rightarrow> string" where
  "positive_toString m e =
     (let p = (if 0 \<le> e then m * 2 ^ nat e else m);
          d = (if 0 \<le> e then 1 else 2 ^ nat (- e));
          n0 = ilog 10 p d + 1
      in case shortest 17 1 p d n0 (Fin m e) of
           (k, s) \<Rightarrow>
             if s = 10 ^ k then format_decimal (digits_of (10 ^ (k - 1))) (n0 + 1)
             else format_decimal (digits_of (nat s)) n0)"

text \<open>\<^verbatim>\<open>String(x)\<close> for a number \<open>x\<close>.\<close>

definition numToString :: "jsnum \<Rightarrow> string" where
  "numToString x =
     (case x of
        NaN \<Rightarrow> ''NaN''
      | PInf \<Rightarrow> ''Infinity''
      | NInf \<Rightarrow> ''-Infinity''
      | Fin m e \<Rightarrow>
          if m = 0 then ''0''
          else if m < 0 then ''-'' @ positive_toString (- m) e
          else positive_toString m e)"

section \<open>Result formatting\<close>

definition toResultString :: "jsval \<Rightarrow> string" where
  "toResultString v =
     (if \<not> isFinite v then ''Error''
      else
        let rounded =
              jsdiv (Math_round (jsmul (jsadd (toNumber v) EPSILON) num_1e12)) num_1e12
        in numToString rounded)"

section \<open>Postfix evaluation\<close>

text \<open>\<^verbatim>\<open>stack.pop()\<close>: the last element and the rest, \<^verbatim>\<open>undefined\<close> from an empty array.\<close>

definition pop :: "jsval list \<Rightarrow> jsval \<times> jsval list" where
  "pop stack = (if stack = [] then (Undefined, []) else (last stack, butlast stack))"

text \<open>\<^verbatim>\<open>b === 0\<close>.\<close>

definition strict_eq_zero :: "jsval \<Rightarrow> bool" where
  "strict_eq_zero b = (b = Num (Fin 0 0))"

definition evalPostfix_body :: "string \<Rightarrow> jsval list \<Rightarrow> jsval list" where
  "evalPostfix_body token stack =
     (if token \<notin> operators then stack @ [Num (parseFloat token)]
      else
        case pop stack of (b, stack1) \<Rightarrow>
        case pop stack1 of (a, stack2) \<Rightarrow>
          if isNaN a \<or> isNaN b then stack2 @ [Num NaN]
          else if token = ''+'' then stack2 @ [Num (jsadd (toNumber a) (toNumber b))]
          else if token = ''-'' then stack2 @ [Num (jssub (toNumber a) (toNumber b))]
          else if token = ''*'' then stack2 @ [Num (jsmul (toNumber a) (toNumber b))]
          else if token = ''/'' then
            stack2 @ [Num (if strict_eq_zero b then NaN else jsdiv (toNumber a) (toNumber b))]
          else stack2 @ [Num NaN])"

text \<open>The result is \<^verbatim>\<open>stack[0]\<close>, the bottom of the stack.\<close>

definition evalPostfix :: "string list \<Rightarrow> jsval" where
  "evalPostfix postfix =
     (case fold evalPostfix_body postfix [] of [] \<Rightarrow> Undefined | v # _ \<Rightarrow> v)"

definition evaluateExpression :: "string \<Rightarrow> jsval" where
  "evaluateExpression raw =
     (let tokens = tokenize raw
      in if length tokens = 0 then Num (Fin 0 0) else evalPostfix (toPostfix tokens))"

section \<open>The expression buffer and the history\<close>

record history_entry =
  entry_expression :: string
  entry_result :: string
  entry_id :: string

record state =
  expression :: string
  history :: "history_entry list"

definition initial :: state where
  "initial = \<lparr>expression = [], history = []\<rparr>"

definition is_operator_char :: "char \<Rightarrow> bool" where
  "is_operator_char c = ([c] \<in> operators)"

text \<open>The last element of \<^verbatim>\<open>expression.split(/[+\-*/]/)\<close>: what follows the last operator.\<close>

definition last_segment :: "string \<Rightarrow> string" where
  "last_segment s = rev (takeWhile (\<lambda>c. \<not> is_operator_char c) (rev s))"

definition normalizeInput :: "string \<Rightarrow> state \<Rightarrow> state" where
  "normalizeInput newChar s =
     (if test_digit newChar then s\<lparr>expression := expression s @ newChar\<rparr>
      else if newChar = ''.'' then
        (let current = last_segment (expression s)
         in if CHR ''.'' \<notin> set current
            then s\<lparr>expression := expression s @ (if current \<noteq> [] then ''.'' else ''0.'')\<rparr>
            else s)
      else if newChar \<in> operators then
        (if expression s = [] then
           (if newChar = ''-'' then s\<lparr>expression := ''-''\<rparr> else s)
         else if operators_has (at_last (expression s)) then
           s\<lparr>expression := butlast (expression s) @ newChar\<rparr>
         else s\<lparr>expression := expression s @ newChar\<rparr>)
      else s)"

text \<open>
  The pattern \<^verbatim>\<open>/-?\d*\.?\d+$/\<close>. \<open>full_match\<close> says that a whole string is of the form
  \<^verbatim>\<open>-?\d*\.?\d+\<close>; since the pattern is anchored at the end, \<^verbatim>\<open>match\<close> returns the first
  suffix, from the left, that is of this form.
\<close>

definition full_match :: "string \<Rightarrow> bool" where
  "full_match s =
     (let t = (if s \<noteq> [] \<and> hd s = CHR ''-'' then tl s else s);
          r = dropWhile is_digit t
      in if r = [] then t \<noteq> []
         else hd r = CHR ''.'' \<and> tl r \<noteq> [] \<and> (\<forall>c \<in> set (tl r). is_digit c))"

fun regex_match :: "string \<Rightarrow> string option" where
  "regex_match [] = None"
| "regex_match (c # cs) = (if full_match (c # cs) then Some (c # cs) else regex_match cs)"

text \<open>
  \<^verbatim>\<open>handleAction(action)\<close>. The second argument is the value that \<^verbatim>\<open>crypto.randomUUID()\<close>
  returns in this call. The calls of \<^verbatim>\<open>updateDisplay\<close> and \<^verbatim>\<open>renderHistory\<close> write to the
  page only.
\<close>

definition handleAction :: "string \<Rightarrow> string \<Rightarrow> state \<Rightarrow> state" where
  "handleAction action uuid s =
     (if action = ''clear'' then s\<lparr>expression := []\<rparr>
      else if action = ''delete'' then s\<lparr>expression := butlast (expression s)\<rparr>
      else if action = ''percent'' then
        (if expression s = [] \<or> operators_has (at_last (expression s)) then s
         else case regex_match (expression s) of
                None \<Rightarrow> s
              | Some current \<Rightarrow>
                  let percentValue = numToString (jsdiv (parseFloat current) num_100)
                  in s\<lparr>expression :=
                         take (length (expression s) - length current) (expression s)
                           @ percentValue\<rparr>)
      else if action = ''sign'' then
        (case regex_match (expression s) of
           None \<Rightarrow>
             s\<lparr>expression :=
                 (if expression s \<noteq> [] \<and> hd (expression s) = CHR ''-''
                  then tl (expression s) else ''-'' @ expression s)\<rparr>
         | Some current \<Rightarrow>
             let toggled = (if hd current = CHR ''-'' then tl current else ''-'' @ current)
             in s\<lparr>expression :=
                    take (length (expression s) - length current) (expression s) @ toggled\<rparr>)
      else if action = ''equals'' then
        (if expression s = [] \<or> operators_has (at_last (expression s)) then s
         else
           let result = evaluateExpression (expression s);
               answer = toResultString result
           in if answer \<noteq> ''Error''
              then \<lparr>expression = answer,
                    history =
                      take 20
                        (\<lparr>entry_expression = expression s, entry_result = answer,
                          entry_id = uuid\<rparr> # history s)\<rparr>
              else s\<lparr>expression := []\<rparr>)
      else s)"

text \<open>The listener of the button \<^verbatim>\<open>clearHistory\<close>.\<close>

definition clearHistory :: "state \<Rightarrow> state" where
  "clearHistory s = s\<lparr>history := []\<rparr>"

text \<open>
  What the page can send: a key or keypad value to \<^verbatim>\<open>normalizeInput\<close>, an action (with
  the identifier drawn in that call) to \<^verbatim>\<open>handleAction\<close>, or a click on \<^verbatim>\<open>clearHistory\<close>.
\<close>

datatype event = Input string | Action string string | ClearHistory

fun step :: "state \<Rightarrow> event \<Rightarrow> state" where
  "step s (Input newChar) = normalizeInput newChar s"
| "step s (Action action uuid) = handleAction action uuid s"
| "step s ClearHistory = clearHistory s"

definition run :: "state \<Rightarrow> event list \<Rightarrow> state" where
  "run s es = foldl step s es"

section \<open>Predicates used in the statements\<close>

text \<open>No two neighbouring characters of a buffer are both operator characters.\<close>

fun no_adjacent_operators :: "string \<Rightarrow> bool" where
  "no_adjacent_operators (a # b # cs) =
     (\<not> (is_operator_char a \<and> is_operator_char b) \<and> no_adjacent_operators (b # cs))"
| "no_adjacent_operators cs = True"

text \<open>
  A numeric string, as a decimal numeral is written: an optional leading minus sign, then
  digits with at most one dot among them, and at least one digit.
\<close>

definition numeric_string :: "string \<Rightarrow> bool" where
  "numeric_string t =
     (let u = (if t \<noteq> [] \<and> hd t = CHR ''-'' then tl t else t)
      in (\<forall>c \<in> set u. is_digit c \<or> c = CHR ''.'') \<and>
         (\<exists>c \<in> set u. is_digit c) \<and>
         length (filter (\<lambda>c. c = CHR ''.'') u) \<le> 1)"

text \<open>
  The shape of the number tokens that the tokenizer builds, which is wider: an optional
  leading minus sign, then at least one character, each a digit or a dot. Such a token
  need not be a numeral: it may have no digit or several dots.
\<close>

definition number_token :: "string \<Rightarrow> bool" where
  "number_token t =
     (let u = (if t \<noteq> [] \<and> hd t = CHR ''-'' then tl t else t)
      in u \<noteq> [] \<and> (\<forall>c \<in> set u. is_digit c \<or> c = CHR ''.''))"

text \<open>
  An \<^verbatim>\<open>equals\<close> that evaluates without error, the history entry it makes, their number in a
  sequence of events and the entry made by the last of them.
\<close>

definition successful :: "state \<Rightarrow> event \<Rightarrow> bool" where
  "successful s ev =
     (case ev of
        Action action uuid \<Rightarrow>
          action = ''equals'' \<and> expression s \<noteq> [] \<and>
          \<not> operators_has (at_last (expression s)) \<and>
          toResultString (evaluateExpression (expression s)) \<noteq> ''Error''
      | _ \<Rightarrow> False)"

definition made_entry :: "state \<Rightarrow> event \<Rightarrow> history_entry" where
  "made_entry s ev =
     \<lparr>entry_expression = expression s,
      entry_result = toResultString (evaluateExpression (expression s)),
      entry_id = (case ev of Action action uuid \<Rightarrow> uuid | _ \<Rightarrow> [])\<rparr>"

fun successes :: "state \<Rightarrow> event list \<Rightarrow> nat" where
  "successes s [] = 0"
| "successes s (ev # es) = (if successful s ev then 1 else 0) + successes (step s ev) es"

fun last_entry :: "state \<Rightarrow> event list \<Rightarrow> history_entry option" where
  "last_entry s [] = None"
| "last_entry s (ev # es) =
     (case last_entry (step s ev) es of
        Some entry \<Rightarrow> Some entry
      | None \<Rightarrow> if successful s ev then Some (made_entry s ev) else None)"

text \<open>
  The invariant of the loop of \<^verbatim>\<open>tokenize\<close> before the iteration at index \<open>k\<close>: the tokens
  pushed so far are operators or number tokens, no two number tokens are neighbours, the
  last token is an operator, and the number buffer is empty, a number token, or a lone
  minus sign that the character at \<open>k\<close> completes.
\<close>

definition tokenize_inv :: "string \<Rightarrow> nat \<Rightarrow> string list \<times> string \<Rightarrow> bool" where
  "tokenize_inv raw k st =
     (case st of (tokens, numberBuffer) \<Rightarrow>
        (\<forall>t \<in> set tokens. t \<in> operators \<or> number_token t) \<and>
        (\<forall>i. Suc i < length tokens \<longrightarrow>
               tokens ! i \<in> operators \<or> tokens ! Suc i \<in> operators) \<and>
        (tokens = [] \<or> last tokens \<in> operators) \<and>
        (numberBuffer = [] \<or> number_token numberBuffer \<or>
         (numberBuffer = ''-'' \<and> test_digit_or_dot (str_at raw (int k)))) \<and>
        (k = 0 \<or> operators_has (str_at raw (int k - 1)) \<longrightarrow>
           numberBuffer = [] \<or> numberBuffer = ''-''))"

text \<open>
  Two loop states of \<^verbatim>\<open>tokenize\<close> that differ only in that the first number of the second
  one begins with the extra characters \<open>x\<close>.
\<close>

definition glued :: "string \<Rightarrow> string list \<times> string \<Rightarrow> string list \<times> string \<Rightarrow> bool" where
  "glued x st1 st2 =
     (case (st1, st2) of
        ((tokens1, buffer1), (tokens2, buffer2)) \<Rightarrow>
          (tokens1 = [] \<and> tokens2 = [] \<and> buffer1 \<noteq> [] \<and> buffer2 = x @ buffer1) \<or>
          (\<exists>t ts. tokens1 = t # ts \<and> tokens2 = (x @ t) # ts \<and> buffer2 = buffer1))"

text \<open>The end of \<^verbatim>\<open>tokenize\<close>: a number left in the buffer is pushed.\<close>

definition flush :: "string list \<times> string \<Rightarrow> string list" where
  "flush st =
     (case st of (tokens, numberBuffer) \<Rightarrow>
        if numberBuffer \<noteq> [] then tokens @ [numberBuffer] else tokens)"

text \<open>An event that is a single character typed, or a command other than \<^verbatim>\<open>sign\<close>.\<close>

fun unsigned_event :: "event \<Rightarrow> bool" where
  "unsigned_event (Input newChar) = (length newChar = 1)"
| "unsigned_event (Action action uuid) = (action \<noteq> ''sign'')"
| "unsigned_event ClearHistory = True"

section \<open>Properties of the converter\<close>

lemma pop_while_length:
  "pop_while t (out, st) = (out', st') \<Longrightarrow> length out' + length st' = length out + length st"
proof (induction t "(out, st)" arbitrary: out st rule: pop_while.induct)
  case (1 token outp stack)
  show ?case
  proof (cases "stack \<noteq> [] \<and> prec_ge (last stack) token")
    case True
    with "1.prems" have "pop_while token (outp @ [last stack], butlast stack) = (out', st')"
      by (simp add: pop_while.simps [of token outp stack])
    from "1.hyps" [OF True this] True show ?thesis
      by simp
  next
    case False
    with "1.prems" show ?thesis
      by (simp add: pop_while.simps [of token outp stack])
  qed
qed

lemma toPostfix_body_length:
  "toPostfix_body t (out, st) = (out', st') \<Longrightarrow>
     length out' + length st' = Suc (length out + length st)"
  by (auto simp: toPostfix_body_def split: if_splits prod.splits dest: pop_while_length)

lemma fold_toPostfix_body_length:
  "fold toPostfix_body ts (out, st) = (out', st') \<Longrightarrow>
     length out' + length st' = length ts + length out + length st"
proof (induction ts arbitrary: out st)
  case Nil
  then show ?case by simp
next
  case (Cons t ts)
  obtain o1 s1 where step: "toPostfix_body t (out, st) = (o1, s1)"
    by (cases "toPostfix_body t (out, st)")
  with Cons.prems have "fold toPostfix_body ts (o1, s1) = (out', st')"
    by simp
  from Cons.IH [OF this] toPostfix_body_length [OF step] show ?case
    by simp
qed

lemma pop_all_length: "length (pop_all (out, st)) = length out + length st"
proof (induction "(out, st)" arbitrary: out st rule: pop_all.induct)
  case (1 outp stack)
  show ?case
  proof (cases "stack = []")
    case True
    then show ?thesis by (subst pop_all.simps) simp
  next
    case False
    with "1.hyps" [OF False] show ?thesis
      by (subst pop_all.simps) simp
  qed
qed

text \<open>
  Claim C5. \<^verbatim>\<open>toPostfix\<close> preserves the token count: for every sequence of tokens (number
  and operator tokens alike, any strings), the output has the length of the input.
\<close>

theorem toPostfix_length: "length (toPostfix tokens) = length tokens"
proof -
  obtain out st where f: "fold toPostfix_body tokens ([], []) = (out, st)"
    by (cases "fold toPostfix_body tokens ([], [])")
  from fold_toPostfix_body_length [OF f] have "length out + length st = length tokens"
    by simp
  with f show ?thesis
    by (simp add: toPostfix_def pop_all_length)
qed

section \<open>Evaluation on concrete inputs\<close>

lemmas string_eval = operators_def operators_has_def is_digit_def test_digit_def
  test_digit_or_dot_def str_at_def at_last_def unaryMinus_def tokenize_body_def tokenize_def

lemmas postfix_eval = toPostfix_def toPostfix_body_def pop_while.simps pop_all.simps
  operators_def prec_ge_def precedence_def

lemmas round_eval = round64_def round_pos_def ilog_def jsneg_def Let_def ndigits.simps
  mk_fin_def norm_dyadic.simps

lemmas arith_eval = round_dyadic_def jsadd_def jssub_def jsmul_def jsdiv_def is_negative_def
  is_zero_def jsneg_def Let_def

lemmas parse_eval = parseFloat_def parse_unsigned_def parse_exponent_def digits_val_def
  digit_val_def is_whitespace_def is_digit_def Let_def

lemmas stack_eval = evalPostfix_def evalPostfix_body_def pop_def operators_def isNaN_def
  toNumber_def strict_eq_zero_def

lemma parseFloat_0: "parseFloat ''0'' = Fin 0 0"
  by (simp add: parse_eval, simp add: round_eval)

lemma parseFloat_2: "parseFloat ''2'' = Fin 1 1"
  by (simp add: parse_eval, simp add: round_eval)

lemma parseFloat_3: "parseFloat ''3'' = Fin 3 0"
  by (simp add: parse_eval, simp add: round_eval)

lemma parseFloat_4: "parseFloat ''4'' = Fin 1 2"
  by (simp add: parse_eval, simp add: round_eval)

lemma parseFloat_10: "parseFloat ''10'' = Fin 5 1"
  by (simp add: parse_eval, simp add: round_eval)

lemma parseFloat_minus_5: "parseFloat ''-5'' = Fin (- 5) 0"
  by (simp add: parse_eval, simp add: round_eval)

lemma jsmul_3_4: "jsmul (Fin 3 0) (Fin 1 2) = Fin 3 2"
  by (simp add: arith_eval, simp add: round_eval)

lemma jsadd_2_12: "jsadd (Fin 1 1) (Fin 3 2) = Fin 7 1"
  by (simp add: arith_eval, simp add: round_eval)

lemma jsadd_minus_5_2: "jsadd (Fin (- 5) 0) (Fin 1 1) = Fin (- 3) 0"
  by (simp add: arith_eval, simp add: round_eval)

lemma tokenize_2_3_4: "tokenize ''2+3*4'' = [''2'', ''+'', ''3'', ''*'', ''4'']"
  by (simp add: string_eval upt_rec)

lemma toPostfix_2_3_4:
  "toPostfix [''2'', ''+'', ''3'', ''*'', ''4''] = [''2'', ''3'', ''4'', ''*'', ''+'']"
  by (simp add: postfix_eval)

lemma evalPostfix_2_3_4: "evalPostfix [''2'', ''3'', ''4'', ''*'', ''+''] = Num (Fin 7 1)"
  by (simp add: stack_eval parseFloat_2 parseFloat_3 parseFloat_4 jsmul_3_4 jsadd_2_12)

lemma evaluateExpression_2_3_4: "evaluateExpression ''2+3*4'' = Num (Fin 7 1)"
  by (simp add: evaluateExpression_def tokenize_2_3_4 toPostfix_2_3_4 evalPostfix_2_3_4)

lemma tokenize_10_0: "tokenize ''10/0'' = [''10'', ''/'', ''0'']"
  by (simp add: string_eval upt_rec)

lemma toPostfix_10_0: "toPostfix [''10'', ''/'', ''0''] = [''10'', ''0'', ''/'']"
  by (simp add: postfix_eval)

lemma evalPostfix_10_0: "evalPostfix [''10'', ''0'', ''/''] = Num NaN"
  by (simp add: stack_eval parseFloat_10 parseFloat_0)

lemma evaluateExpression_10_0: "evaluateExpression ''10/0'' = Num NaN"
  by (simp add: evaluateExpression_def tokenize_10_0 toPostfix_10_0 evalPostfix_10_0)

lemma tokenize_minus_5_2: "tokenize ''-5+2'' = [''-5'', ''+'', ''2'']"
  by (simp add: string_eval upt_rec)

lemma toPostfix_minus_5_2: "toPostfix [''-5'', ''+'', ''2''] = [''-5'', ''2'', ''+'']"
  by (simp add: postfix_eval)

lemma evalPostfix_minus_5_2: "evalPostfix [''-5'', ''2'', ''+''] = Num (Fin (- 3) 0)"
  by (simp add: stack_eval parseFloat_minus_5 parseFloat_2 jsadd_minus_5_2)

lemma evaluateExpression_minus_5_2: "evaluateExpression ''-5+2'' = Num (Fin (- 3) 0)"
  by (simp add: evaluateExpression_def tokenize_minus_5_2 toPostfix_minus_5_2
      evalPostfix_minus_5_2)

section \<open>Division by zero\<close>

text \<open>
  Claim C3. Division by zero is an error, not infinity: whatever the left operand \<open>a\<close> is (a
  number, NaN, an infinity, or \<^verbatim>\<open>undefined\<close> popped from a stack with one element), the
  operator \<^verbatim>\<open>/\<close> with the right operand \<open>0\<close> pushes NaN. In particular
  \<^verbatim>\<open>evaluateExpression("10/0")\<close> is NaN, which is not finite, and \<^verbatim>\<open>toResultString\<close> of it is
  \<^verbatim>\<open>"Error"\<close>.
\<close>

theorem division_by_zero_is_error:
  "evalPostfix_body ''/'' (stack @ [a, Num (Fin 0 0)]) = stack @ [Num NaN] \<and>
   evalPostfix_body ''/'' [Num (Fin 0 0)] = [Num NaN] \<and>
   evaluateExpression ''10/0'' = Num NaN \<and>
   \<not> isFinite (evaluateExpression ''10/0'') \<and>
   toResultString (evaluateExpression ''10/0'') = ''Error''"
proof -
  have "evalPostfix_body ''/'' (stack @ [a, Num (Fin 0 0)]) = stack @ [Num NaN]"
    by (simp add: evalPostfix_body_def pop_def operators_def strict_eq_zero_def butlast_append)
  moreover have "evalPostfix_body ''/'' [Num (Fin 0 0)] = [Num NaN]"
    by (simp add: evalPostfix_body_def pop_def operators_def strict_eq_zero_def)
  moreover have "\<not> isFinite (Num NaN)" and "toResultString (Num NaN) = ''Error''"
    by (simp_all add: toResultString_def isFinite_def)
  ultimately show ?thesis
    by (simp add: evaluateExpression_10_0)
qed

section \<open>Operator precedence\<close>

lemma pop_while_takeWhile:
  "pop_while t (out, st) =
     (out @ takeWhile (\<lambda>s. prec_ge s t) (rev st), rev (dropWhile (\<lambda>s. prec_ge s t) (rev st)))"
proof (induction st arbitrary: out rule: rev_induct)
  case Nil
  show ?case by (subst pop_while.simps) simp
next
  case (snoc x xs)
  show ?case
    by (subst pop_while.simps) (simp add: snoc.IH)
qed

lemma tokenize_8_3_2: "tokenize ''8-3-2'' = [''8'', ''-'', ''3'', ''-'', ''2'']"
  by (simp add: string_eval upt_rec)

lemma toPostfix_8_3_2:
  "toPostfix [''8'', ''-'', ''3'', ''-'', ''2''] = [''8'', ''3'', ''-'', ''2'', ''-'']"
  by (simp add: postfix_eval)

lemma number_value_14: "number_value (Num (Fin 7 1)) = Some 14"
  by (simp add: number_value_def)

lemma prec_ge_operators:
  "s \<in> operators \<Longrightarrow> t \<in> operators \<Longrightarrow>
     \<exists>a b. precedence s = Some a \<and> precedence t = Some b \<and> prec_ge s t = (b \<le> a)"
  by (auto simp: operators_def precedence_def prec_ge_def)

text \<open>
  Claim C1. Operator precedence is respected end to end: \<^verbatim>\<open>evaluateExpression("2+3*4")\<close> is
  14. On an operator token, \<^verbatim>\<open>toPostfix\<close> pops to the output the operators on top of the
  stack whose precedence is greater than or equal to that of the token (so an operator
  of equal precedence is popped, which makes the operators left associative, as in
  \<^verbatim>\<open>8-3-2\<close>), and then pushes the token; hence the postfix form of \<^verbatim>\<open>2+3*4\<close> applies the
  multiplication before the addition.
\<close>

theorem precedence_respected:
  "number_value (evaluateExpression ''2+3*4'') = Some 14 \<and>
   toPostfix (tokenize ''2+3*4'') = [''2'', ''3'', ''4'', ''*'', ''+''] \<and>
   toPostfix (tokenize ''8-3-2'') = [''8'', ''3'', ''-'', ''2'', ''-''] \<and>
   (token \<in> operators \<longrightarrow>
      toPostfix_body token (out, stack) =
        (out @ takeWhile (\<lambda>s. prec_ge s token) (rev stack),
         rev (dropWhile (\<lambda>s. prec_ge s token) (rev stack)) @ [token])) \<and>
   (s \<in> operators \<and> token \<in> operators \<longrightarrow>
      (\<exists>a b. precedence s = Some a \<and> precedence token = Some b \<and>
             prec_ge s token = (b \<le> a)))"
proof -
  have "number_value (evaluateExpression ''2+3*4'') = Some 14"
    by (simp add: evaluateExpression_2_3_4 number_value_14)
  moreover have "toPostfix (tokenize ''2+3*4'') = [''2'', ''3'', ''4'', ''*'', ''+'']"
    by (simp add: tokenize_2_3_4 toPostfix_2_3_4)
  moreover have "toPostfix (tokenize ''8-3-2'') = [''8'', ''3'', ''-'', ''2'', ''-'']"
    by (simp add: tokenize_8_3_2 toPostfix_8_3_2)
  moreover have "token \<in> operators \<longrightarrow>
      toPostfix_body token (out, stack) =
        (out @ takeWhile (\<lambda>s. prec_ge s token) (rev stack),
         rev (dropWhile (\<lambda>s. prec_ge s token) (rev stack)) @ [token])"
    by (simp add: toPostfix_body_def pop_while_takeWhile)
  moreover have "s \<in> operators \<and> token \<in> operators \<longrightarrow>
      (\<exists>a b. precedence s = Some a \<and> precedence token = Some b \<and>
             prec_ge s token = (b \<le> a))"
    using prec_ge_operators [of s token] by blast
  ultimately show ?thesis
    by blast
qed

theorem precedence_respected_witness:
  "''*'' \<in> operators \<and> ''+'' \<in> operators \<and>
   toPostfix_body ''*'' ([''2'', ''3''], [''+'']) = ([''2'', ''3''], [''+'', ''*'']) \<and>
   toPostfix_body ''+'' ([''2'', ''3''], [''*'']) = ([''2'', ''3'', ''*''], [''+'']) \<and>
   \<not> prec_ge ''+'' ''*'' \<and> prec_ge ''*'' ''+''"
proof -
  have ops: "''*'' \<in> operators" "''+'' \<in> operators"
    by (simp_all add: operators_def)
  have p: "\<not> prec_ge ''+'' ''*''" "prec_ge ''*'' ''+''"
    by (simp_all add: prec_ge_def precedence_def)
  from precedence_respected [of "''*''" "[''2'', ''3'']" "[''+'']" "''+''"] ops p
  have a: "toPostfix_body ''*'' ([''2'', ''3''], [''+'']) = ([''2'', ''3''], [''+'', ''*''])"
    by simp
  from precedence_respected [of "''+''" "[''2'', ''3'']" "[''*'']" "''*''"] ops p
  have b: "toPostfix_body ''+'' ([''2'', ''3''], [''*'']) = ([''2'', ''3'', ''*''], [''+''])"
    by simp
  from ops p a b show ?thesis
    by simp
qed

section \<open>Operator characters in strings\<close>

lemma is_operator_char_iff:
  "is_operator_char c \<longleftrightarrow> c = CHR ''+'' \<or> c = CHR ''-'' \<or> c = CHR ''*'' \<or> c = CHR ''/''"
  by (auto simp: is_operator_char_def operators_def)

lemma digit_not_operator: "is_digit c \<Longrightarrow> \<not> is_operator_char c"
  by (auto simp: is_digit_def is_operator_char_iff)

lemma no_adjacent_operators_Cons:
  "no_adjacent_operators (a # cs) =
     ((cs = [] \<or> \<not> (is_operator_char a \<and> is_operator_char (hd cs))) \<and>
      no_adjacent_operators cs)"
  by (cases cs) auto

lemma no_adjacent_operators_append:
  "no_adjacent_operators (xs @ ys) =
     (no_adjacent_operators xs \<and> no_adjacent_operators ys \<and>
      (xs = [] \<or> ys = [] \<or> \<not> (is_operator_char (last xs) \<and> is_operator_char (hd ys))))"
proof (induction xs)
  case Nil
  show ?case by simp
next
  case (Cons a xs)
  show ?case
  proof (cases xs)
    case Nil
    then show ?thesis by (auto simp: no_adjacent_operators_Cons)
  next
    case (Cons b zs)
    with Cons.IH show ?thesis by (auto simp: no_adjacent_operators_Cons)
  qed
qed

lemma no_operators_no_adjacent:
  "\<forall>c \<in> set cs. \<not> is_operator_char c \<Longrightarrow> no_adjacent_operators cs"
  by (induction cs) (auto simp: no_adjacent_operators_Cons)

lemma no_adjacent_operators_butlast:
  "no_adjacent_operators cs \<Longrightarrow> no_adjacent_operators (butlast cs)"
proof (cases "cs = []")
  case True
  then show ?thesis by simp
next
  case False
  assume "no_adjacent_operators cs"
  with False have "no_adjacent_operators (butlast cs @ [last cs])" by simp
  then show ?thesis
    unfolding no_adjacent_operators_append by simp
qed

lemma no_adjacent_operators_take:
  "no_adjacent_operators cs \<Longrightarrow> no_adjacent_operators (take n cs)"
proof -
  assume "no_adjacent_operators cs"
  then have "no_adjacent_operators (take n cs @ drop n cs)" by simp
  then show ?thesis
    unfolding no_adjacent_operators_append by simp
qed

section \<open>The shape of a printed number\<close>

lemma digit_char_digit: "is_digit (digit_char n)"
proof -
  have "n mod 10 < length ''0123456789''" by simp
  then have "''0123456789'' ! (n mod 10) \<in> set ''0123456789''"
    by (rule nth_mem)
  then show ?thesis
    by (simp add: digit_char_def is_digit_def)
qed

lemma digits_of_digits: "digits_of n \<noteq> [] \<and> (\<forall>c \<in> set (digits_of n). is_digit c)"
proof (induction n rule: digits_of.induct)
  case (1 n)
  show ?case
  proof (cases "n < 10")
    case True
    then show ?thesis
      by (subst (1 2) digits_of.simps) (simp add: digit_char_digit)
  next
    case False
    with "1.IH" show ?thesis
      by (subst (1 2) digits_of.simps) (auto simp: digit_char_digit)
  qed
qed

lemma hd_in_set_digit: "ds \<noteq> [] \<Longrightarrow> \<forall>c \<in> set ds. is_digit c \<Longrightarrow> is_digit (hd ds)"
  by (cases ds) auto

lemma format_decimal_shape:
  assumes "ds \<noteq> []" and "\<forall>c \<in> set ds. is_digit c"
  shows "format_decimal ds n \<noteq> [] \<and> is_digit (hd (format_decimal ds n)) \<and>
         no_adjacent_operators (format_decimal ds n)"
proof -
  have hd_ds: "is_digit (hd ds)"
    using assms by (rule hd_in_set_digit)
  have nd: "\<forall>c \<in> set ds. \<not> is_operator_char c"
    using assms(2) digit_not_operator by blast
  let ?ex = "digits_of (nat \<bar>n - 1\<bar>)"
  have ex: "?ex \<noteq> []" "\<forall>c \<in> set ?ex. \<not> is_operator_char c"
    using digits_of_digits [of "nat \<bar>n - 1\<bar>"] digit_not_operator by auto
  have dot: "\<not> is_operator_char CHR ''.''" "\<not> is_operator_char CHR ''e''"
    "\<not> is_operator_char CHR ''0''"
    by (simp_all add: is_operator_char_iff)
  have exs: "no_adjacent_operators (sg @ ?ex)" if "length sg = 1" for sg
  proof -
    from that obtain c where "sg = [c]" by (cases sg) auto
    with ex show ?thesis
      by (simp add: no_adjacent_operators_Cons no_operators_no_adjacent)
  qed
  have body: "no_adjacent_operators (xs @ ''e'' @ sg @ ?ex)"
    if "\<forall>c \<in> set xs. \<not> is_operator_char c" and "length sg = 1" for xs sg
  proof -
    have "\<forall>c \<in> set (xs @ ''e''). \<not> is_operator_char c"
      using that(1) dot by simp
    then have "no_adjacent_operators (xs @ ''e'')"
      by (rule no_operators_no_adjacent)
    with exs [OF that(2)] dot have "no_adjacent_operators ((xs @ ''e'') @ (sg @ ?ex))"
      unfolding no_adjacent_operators_append [of "xs @ ''e''"] by simp
    then show ?thesis by simp
  qed
  let ?sg = "if n - 1 < 0 then ''-'' else ''+''"
  have sg: "length ?sg = 1" by simp
  have k: "1 \<le> int (length ds)"
    using assms(1) by (cases ds) auto
  consider (a) "int (length ds) \<le> n" "n \<le> 21"
    | (b) "n < int (length ds)" "0 < n" "n \<le> 21"
    | (c) "- 6 < n" "n \<le> 0"
    | (d) "n \<le> - 6 \<or> 21 < n" "length ds = 1"
    | (e) "n \<le> - 6 \<or> 21 < n" "length ds \<noteq> 1"
    by linarith
  then show ?thesis
  proof cases
    case a
    let ?r = "ds @ replicate (nat (n - int (length ds))) CHR ''0''"
    from a have eq: "format_decimal ds n = ?r"
      by (simp add: format_decimal_def Let_def)
    have "\<forall>c \<in> set ?r. \<not> is_operator_char c"
      using nd dot by auto
    then have "no_adjacent_operators ?r"
      by (rule no_operators_no_adjacent)
    with hd_ds assms(1) show ?thesis
      unfolding eq by simp
  next
    case b
    let ?r = "take (nat n) ds @ ''.'' @ drop (nat n) ds"
    from b have eq: "format_decimal ds n = ?r"
      by (simp add: format_decimal_def Let_def)
    have "\<forall>c \<in> set ?r. \<not> is_operator_char c"
      using nd dot by (auto dest: in_set_takeD in_set_dropD)
    then have "no_adjacent_operators ?r"
      by (rule no_operators_no_adjacent)
    moreover from b assms(1) have "take (nat n) ds \<noteq> []" by auto
    moreover from this have "hd ?r = hd ds" by (simp add: hd_append2)
    ultimately show ?thesis
      unfolding eq using hd_ds by simp
  next
    case c
    let ?r = "''0.'' @ replicate (nat (- n)) CHR ''0'' @ ds"
    from c k have eq: "format_decimal ds n = ?r"
      by (simp add: format_decimal_def Let_def)
    have "\<forall>c \<in> set ?r. \<not> is_operator_char c"
      using nd dot by auto
    then have "no_adjacent_operators ?r"
      by (rule no_operators_no_adjacent)
    then show ?thesis
      unfolding eq by (simp add: is_digit_def)
  next
    case d
    let ?r = "ds @ ''e'' @ ?sg @ ?ex"
    from d have eq: "format_decimal ds n = ?r"
      by (auto simp: format_decimal_def Let_def)
    have "no_adjacent_operators ?r"
      using nd sg by (rule body)
    moreover have "hd ?r = hd ds" "?r \<noteq> []"
      using assms(1) by (simp_all add: hd_append2)
    ultimately show ?thesis
      unfolding eq using hd_ds by simp
  next
    case e
    let ?xs = "take 1 ds @ ''.'' @ drop 1 ds"
    let ?r = "?xs @ ''e'' @ ?sg @ ?ex"
    from e k have eq: "format_decimal ds n = ?r"
      by (auto simp: format_decimal_def Let_def)
    have "\<forall>c \<in> set ?xs. \<not> is_operator_char c"
      using nd dot by (auto dest: in_set_takeD in_set_dropD)
    then have "no_adjacent_operators ?r"
      using sg by (rule body)
    moreover from assms(1) have "take 1 ds \<noteq> []" by auto
    then have "hd ?r = hd (take 1 ds)" "?r \<noteq> []"
      by (simp_all add: hd_append2)
    moreover from assms(1) have "hd (take 1 ds) = hd ds" by (cases ds) auto
    ultimately show ?thesis
      unfolding eq using hd_ds by simp
  qed
qed

lemma positive_toString_shape:
  "positive_toString m e \<noteq> [] \<and> is_digit (hd (positive_toString m e)) \<and>
   no_adjacent_operators (positive_toString m e)"
proof -
  have "\<exists>n N. positive_toString m e = format_decimal (digits_of n) N"
    unfolding positive_toString_def Let_def
    by (cases "shortest 17 1 (if 0 \<le> e then m * 2 ^ nat e else m)
                 (if 0 \<le> e then 1 else 2 ^ nat (- e))
                 (ilog 10 (if 0 \<le> e then m * 2 ^ nat e else m)
                    (if 0 \<le> e then 1 else 2 ^ nat (- e)) + 1) (Fin m e)")
       (auto simp del: shortest.simps)
  then obtain n N where eq: "positive_toString m e = format_decimal (digits_of n) N"
    by blast
  from digits_of_digits [of n] show ?thesis
    unfolding eq by (intro format_decimal_shape) auto
qed

lemma numToString_no_adjacent: "no_adjacent_operators (numToString x)"
proof (cases x)
  case (Fin m e)
  have "no_adjacent_operators (''-'' @ positive_toString (- m) e)"
    using positive_toString_shape [of "- m" e] digit_not_operator
    by (simp add: no_adjacent_operators_Cons)
  with Fin positive_toString_shape [of m e] show ?thesis
    by (simp add: numToString_def)
qed (simp_all add: numToString_def is_operator_char_iff)

lemma numToString_hd:
  "numToString x \<noteq> [] \<and>
   (is_operator_char (hd (numToString x)) \<longrightarrow> is_negative x) \<and>
   hd (numToString x) \<noteq> CHR ''E''"
proof (cases x)
  case (Fin m e)
  have E: "\<not> is_digit CHR ''E''"
    by (simp add: is_digit_def)
  consider (zero) "m = 0" | (neg) "m < 0" | (pos) "0 < m"
    by linarith
  then show ?thesis
  proof cases
    case zero
    with Fin show ?thesis
      by (simp add: numToString_def is_operator_char_iff)
  next
    case neg
    with Fin show ?thesis
      by (simp add: numToString_def is_negative_def)
  next
    case pos
    then have eq: "numToString x = positive_toString m e"
      using Fin by (simp add: numToString_def)
    from positive_toString_shape [of m e] E digit_not_operator show ?thesis
      unfolding eq by metis
  qed
qed (simp_all add: numToString_def is_operator_char_iff is_negative_def)

lemma numToString_not_Error: "numToString x \<noteq> ''Error''"
  using numToString_hd [of x] by (cases "numToString x") auto

lemma toResultString_Error: "toResultString v = ''Error'' \<longleftrightarrow> \<not> isFinite v"
  by (simp add: toResultString_def numToString_not_Error)

section \<open>Formatting on concrete inputs\<close>

lemmas print_eval = candidate_def round_decimal_def

lemma toNumber_Num: "toNumber (Num x) = x"
  by (simp add: toNumber_def)

lemma jsadd_14_EPSILON: "jsadd (Fin 7 1) EPSILON = Fin 7 1"
  by (simp add: arith_eval EPSILON_def, simp add: round_eval)

lemma jsmul_14_1e12: "jsmul (Fin 7 1) num_1e12 = Fin 1708984375 13"
  by (simp add: arith_eval num_1e12_def, simp add: round_eval)

lemma Math_round_14e12: "Math_round (Fin 1708984375 13) = Fin 1708984375 13"
  by (simp add: Math_round_def)

lemma jsdiv_14e12_1e12: "jsdiv (Fin 1708984375 13) num_1e12 = Fin 7 1"
  by (simp add: arith_eval num_1e12_def, simp add: round_eval)

lemma ilog_10_14: "ilog 10 14 1 = 1"
  by (simp add: ilog_def ndigits.simps)

lemma candidate_1_14: "candidate (Suc 0) 14 1 2 (Fin 7 1) = None"
  by (simp add: print_eval, simp add: round_eval)

lemma candidate_2_14: "candidate (Suc (Suc 0)) 14 1 2 (Fin 7 1) = Some 14"
  by (simp add: print_eval, simp add: round_eval)

lemma shortest_numeral:
  "shortest (numeral j) k p d n0 target =
     (case candidate k p d n0 target of
        Some s \<Rightarrow> (k, s)
      | None \<Rightarrow> shortest (pred_numeral j) (Suc k) p d n0 target)"
  by (simp add: numeral_eq_Suc)

lemma shortest_14: "shortest 17 (Suc 0) 14 1 2 (Fin 7 1) = (Suc (Suc 0), 14)"
  by (simp add: shortest_numeral candidate_1_14 candidate_2_14)

lemma digits_of_14: "digits_of 14 = ''14''"
  by (simp add: digits_of.simps digit_char_def)

lemma numToString_14: "numToString (Fin 7 1) = ''14''"
  by (simp add: numToString_def positive_toString_def ilog_10_14 shortest_14 digits_of_14
      format_decimal_def)

lemma toResultString_14: "toResultString (Num (Fin 7 1)) = ''14''"
  by (simp add: toResultString_def isFinite_def toNumber_Num jsadd_14_EPSILON jsmul_14_1e12
      Math_round_14e12 jsdiv_14e12_1e12 numToString_14)

section \<open>The \<^verbatim>\<open>equals\<close> command\<close>

lemma handleAction_equals:
  "handleAction ''equals'' uuid s =
     (if expression s = [] \<or> operators_has (at_last (expression s)) then s
      else if toResultString (evaluateExpression (expression s)) \<noteq> ''Error''
      then \<lparr>expression = toResultString (evaluateExpression (expression s)),
            history =
              take 20
                (\<lparr>entry_expression = expression s,
                  entry_result = toResultString (evaluateExpression (expression s)),
                  entry_id = uuid\<rparr> # history s)\<rparr>
      else s\<lparr>expression := []\<rparr>)"
  by (simp add: handleAction_def Let_def)

text \<open>
  Claim C6. On \<^verbatim>\<open>equals\<close> with a buffer that is not empty and does not end in an operator:
  the formatted result is the sentinel \<^verbatim>\<open>"Error"\<close> exactly when the result is not finite;
  then the buffer is reset to the empty string and the history is unchanged. Otherwise
  the buffer becomes the result string and an entry is put in front of the history
  (which keeps its first 20 entries).
\<close>

theorem equals_error_or_commit:
  assumes "expression s \<noteq> []" and "\<not> operators_has (at_last (expression s))"
  shows "(toResultString (evaluateExpression (expression s)) = ''Error'') =
           (\<not> isFinite (evaluateExpression (expression s))) \<and>
         (toResultString (evaluateExpression (expression s)) = ''Error'' \<longrightarrow>
            expression (handleAction ''equals'' uuid s) = [] \<and>
            history (handleAction ''equals'' uuid s) = history s) \<and>
         (toResultString (evaluateExpression (expression s)) \<noteq> ''Error'' \<longrightarrow>
            expression (handleAction ''equals'' uuid s) =
              toResultString (evaluateExpression (expression s)) \<and>
            history (handleAction ''equals'' uuid s) =
              take 20
                (\<lparr>entry_expression = expression s,
                  entry_result = toResultString (evaluateExpression (expression s)),
                  entry_id = uuid\<rparr> # history s))"
  using assms by (simp add: handleAction_equals toResultString_Error)

theorem equals_error_or_commit_witness:
  "expression \<lparr>expression = ''10/0'', history = []\<rparr> \<noteq> [] \<and>
   \<not> operators_has (at_last (expression \<lparr>expression = ''10/0'', history = []\<rparr>)) \<and>
   toResultString (evaluateExpression ''10/0'') = ''Error'' \<and>
   expression (handleAction ''equals'' ''id1'' \<lparr>expression = ''10/0'', history = []\<rparr>) = [] \<and>
   history (handleAction ''equals'' ''id1'' \<lparr>expression = ''10/0'', history = []\<rparr>) = [] \<and>
   toResultString (evaluateExpression ''2+3*4'') = ''14'' \<and>
   expression (handleAction ''equals'' ''id2'' \<lparr>expression = ''2+3*4'', history = []\<rparr>) = ''14'' \<and>
   history (handleAction ''equals'' ''id2'' \<lparr>expression = ''2+3*4'', history = []\<rparr>) =
     [\<lparr>entry_expression = ''2+3*4'', entry_result = ''14'', entry_id = ''id2''\<rparr>]"
proof -
  have e1: "toResultString (evaluateExpression ''10/0'') = ''Error''"
    by (simp add: evaluateExpression_10_0 toResultString_def isFinite_def)
  have e2: "toResultString (evaluateExpression ''2+3*4'') = ''14''"
    by (simp add: evaluateExpression_2_3_4 toResultString_14)
  have a: "\<not> operators_has (at_last ''10/0'')" "\<not> operators_has (at_last ''2+3*4'')"
    by (simp_all add: operators_has_def at_last_def operators_def)
  from equals_error_or_commit [of "\<lparr>expression = ''10/0'', history = []\<rparr>" "''id1''"]
    equals_error_or_commit [of "\<lparr>expression = ''2+3*4'', history = []\<rparr>" "''id2''"]
    a e1 e2
  show ?thesis by simp
qed

text \<open>
  Claim C8. When \<^verbatim>\<open>equals\<close> evaluates a buffer without error, the history entry at index 0
  immediately afterwards has as its expression the buffer as it was just before the
  command, character for character.
\<close>

theorem equals_records_buffer:
  assumes "expression s \<noteq> []" and "\<not> operators_has (at_last (expression s))"
    and "toResultString (evaluateExpression (expression s)) \<noteq> ''Error''"
  shows "history (handleAction ''equals'' uuid s) \<noteq> [] \<and>
         entry_expression (history (handleAction ''equals'' uuid s) ! 0) = expression s"
  using assms by (simp add: handleAction_equals)

theorem equals_records_buffer_witness:
  "expression \<lparr>expression = ''2+3*4'', history = []\<rparr> \<noteq> [] \<and>
   \<not> operators_has (at_last (expression \<lparr>expression = ''2+3*4'', history = []\<rparr>)) \<and>
   toResultString (evaluateExpression (expression \<lparr>expression = ''2+3*4'', history = []\<rparr>))
     \<noteq> ''Error'' \<and>
   entry_expression
     (history (handleAction ''equals'' ''id'' \<lparr>expression = ''2+3*4'', history = []\<rparr>) ! 0) =
     ''2+3*4''"
proof -
  have e: "toResultString (evaluateExpression ''2+3*4'') = ''14''"
    by (simp add: evaluateExpression_2_3_4 toResultString_14)
  have a: "\<not> operators_has (at_last ''2+3*4'')"
    by (simp add: operators_has_def at_last_def operators_def)
  from equals_records_buffer [of "\<lparr>expression = ''2+3*4'', history = []\<rparr>" "''id''"] a e
  show ?thesis by simp
qed

section \<open>The history\<close>

lemma history_normalizeInput: "history (normalizeInput newChar s) = history s"
  by (simp add: normalizeInput_def Let_def)

lemma history_handleAction:
  "history (handleAction action uuid s) =
     (if successful s (Action action uuid)
      then take 20 (made_entry s (Action action uuid) # history s)
      else history s)"
  by (simp add: handleAction_def successful_def made_entry_def Let_def split: option.splits)

lemma history_step:
  "history (step s ev) =
     (if successful s ev then take 20 (made_entry s ev # history s)
      else if ev = ClearHistory then []
      else history s)"
  by (cases ev)
    (simp_all add: history_normalizeInput history_handleAction clearHistory_def successful_def)

lemma run_Cons: "run s (ev # es) = run (step s ev) es"
  by (simp add: run_def)

lemma run_Nil: "run s [] = s"
  by (simp add: run_def)

lemma length_history_step: "length (history s) \<le> 20 \<Longrightarrow> length (history (step s ev)) \<le> 20"
  by (simp add: history_step)

lemma length_history_run: "length (history s) \<le> 20 \<Longrightarrow> length (history (run s es)) \<le> 20"
proof (induction es arbitrary: s)
  case Nil
  then show ?case by (simp add: run_Nil)
next
  case (Cons ev es)
  from Cons.prems have "length (history (step s ev)) \<le> 20"
    by (rule length_history_step)
  then show ?case
    unfolding run_Cons by (rule Cons.IH)
qed

lemma length_history_successes:
  "length (history s) \<le> 20 \<Longrightarrow> ClearHistory \<notin> set es \<Longrightarrow>
     length (history (run s es)) = min 20 (length (history s) + successes s es)"
proof (induction es arbitrary: s)
  case Nil
  then show ?case by (simp add: run_Nil)
next
  case (Cons ev es)
  from Cons.prems have le: "length (history (step s ev)) \<le> 20"
    by (simp add: length_history_step)
  from Cons.prems have nc: "ClearHistory \<notin> set es" and ev: "ev \<noteq> ClearHistory"
    by auto
  have "length (history (run (step s ev) es)) =
          min 20 (length (history (step s ev)) + successes (step s ev) es)"
    using le nc by (rule Cons.IH)
  moreover have "length (history (step s ev)) =
      min 20 (length (history s) + (if successful s ev then 1 else 0))"
    using Cons.prems(1) ev by (auto simp: history_step)
  ultimately show ?case
    unfolding run_Cons by simp
qed

lemma no_success_last_entry: "successes s es = 0 \<Longrightarrow> last_entry s es = None"
  by (induction es arbitrary: s) (auto split: if_splits)

lemma no_success_history:
  "successes s es = 0 \<Longrightarrow> ClearHistory \<notin> set es \<Longrightarrow> history (run s es) = history s"
proof (induction es arbitrary: s)
  case Nil
  then show ?case by (simp add: run_Nil)
next
  case (Cons ev es)
  from Cons.prems have "\<not> successful s ev" "successes (step s ev) es = 0"
    "ClearHistory \<notin> set es" "ev \<noteq> ClearHistory"
    by (auto split: if_splits)
  with Cons.IH [of "step s ev"] show ?case
    unfolding run_Cons by (simp add: history_step)
qed

lemma last_entry_newest:
  "0 < successes s es \<Longrightarrow> ClearHistory \<notin> set es \<Longrightarrow>
     last_entry s es = Some (history (run s es) ! 0)"
proof (induction es arbitrary: s)
  case Nil
  then show ?case by simp
next
  case (Cons ev es)
  from Cons.prems have nc: "ClearHistory \<notin> set es" by simp
  show ?case
  proof (cases "successes (step s ev) es = 0")
    case True
    with Cons.prems have suc: "successful s ev"
      by (auto split: if_splits)
    from True nc have "history (run (step s ev) es) = history (step s ev)"
      by (rule no_success_history)
    with suc True show ?thesis
      unfolding run_Cons by (simp add: no_success_last_entry history_step)
  next
    case False
    then have "0 < successes (step s ev) es" by simp
    from Cons.IH [OF this nc] show ?thesis
      unfolding run_Cons by simp
  qed
qed

text \<open>
  Claim C7. The history is bounded and newest first. After any sequence of events its
  length is at most 20. After more than 20 successful \<^verbatim>\<open>equals\<close> commands (the history
  not being cleared meanwhile) its length is exactly 20, and entry 0 is the entry made
  by the most recent of them. Each successful \<^verbatim>\<open>equals\<close> leaves its entry at index 0.
\<close>

theorem history_bounded_newest_first:
  "length (history (run initial es)) \<le> 20 \<and>
   (ClearHistory \<notin> set es \<and> 20 < successes initial es \<longrightarrow>
      length (history (run initial es)) = 20 \<and>
      last_entry initial es = Some (history (run initial es) ! 0)) \<and>
   (length (history s) \<le> 20 \<and> successful s ev \<longrightarrow>
      length (history (step s ev)) \<le> 20 \<and> history (step s ev) ! 0 = made_entry s ev)"
proof -
  have init: "length (history initial) \<le> 20"
    by (simp add: initial_def)
  then have "length (history (run initial es)) \<le> 20"
    by (rule length_history_run)
  moreover have "length (history (run initial es)) = 20"
    if "ClearHistory \<notin> set es" "20 < successes initial es"
    using length_history_successes [OF init that(1)] that(2) by (simp add: initial_def)
  moreover have "last_entry initial es = Some (history (run initial es) ! 0)"
    if "ClearHistory \<notin> set es" "20 < successes initial es"
    using last_entry_newest [of initial es] that by simp
  moreover have "length (history (step s ev)) \<le> 20 \<and> history (step s ev) ! 0 = made_entry s ev"
    if "length (history s) \<le> 20" "successful s ev"
    using that by (simp add: history_step)
  ultimately show ?thesis
    by blast
qed

section \<open>More than twenty calculations\<close>

lemma parseFloat_7: "parseFloat ''7'' = Fin 7 0"
  by (simp add: parse_eval, simp add: round_eval)

lemma tokenize_7: "tokenize ''7'' = [''7'']"
  by (simp add: string_eval upt_rec)

lemma evaluateExpression_7: "evaluateExpression ''7'' = Num (Fin 7 0)"
  by (simp add: evaluateExpression_def tokenize_7 postfix_eval stack_eval parseFloat_7)

lemma jsadd_7_EPSILON: "jsadd (Fin 7 0) EPSILON = Fin 7 0"
  by (simp add: arith_eval EPSILON_def, simp add: round_eval)

lemma jsmul_7_1e12: "jsmul (Fin 7 0) num_1e12 = Fin 1708984375 12"
  by (simp add: arith_eval num_1e12_def, simp add: round_eval)

lemma Math_round_7e12: "Math_round (Fin 1708984375 12) = Fin 1708984375 12"
  by (simp add: Math_round_def)

lemma jsdiv_7e12_1e12: "jsdiv (Fin 1708984375 12) num_1e12 = Fin 7 0"
  by (simp add: arith_eval num_1e12_def, simp add: round_eval)

lemma ilog_10_7: "ilog 10 7 1 = 0"
  by (simp add: ilog_def ndigits.simps)

lemma candidate_1_7: "candidate (Suc 0) 7 1 1 (Fin 7 0) = Some 7"
  by (simp add: print_eval, simp add: round_eval)

lemma digits_of_7: "digits_of 7 = ''7''"
  by (simp add: digits_of.simps digit_char_def)

lemma numToString_7: "numToString (Fin 7 0) = ''7''"
  by (simp add: numToString_def positive_toString_def ilog_10_7 shortest_numeral candidate_1_7
      digits_of_7 format_decimal_def)

lemma toResultString_7: "toResultString (Num (Fin 7 0)) = ''7''"
  by (simp add: toResultString_def isFinite_def toNumber_Num jsadd_7_EPSILON jsmul_7_1e12
      Math_round_7e12 jsdiv_7e12_1e12 numToString_7)

lemma successful_7: "expression s = ''7'' \<Longrightarrow> successful s (Action ''equals'' uuid)"
  by (simp add: successful_def operators_has_def at_last_def operators_def
      evaluateExpression_7 toResultString_7)

lemma expression_equals_7:
  "expression s = ''7'' \<Longrightarrow> expression (step s (Action ''equals'' uuid)) = ''7''"
  by (simp add: handleAction_equals operators_has_def at_last_def operators_def
      evaluateExpression_7 toResultString_7)

lemma successes_replicate_7:
  "expression s = ''7'' \<Longrightarrow> successes s (replicate n (Action ''equals'' uuid)) = n"
proof (induction n arbitrary: s)
  case 0
  show ?case by simp
next
  case (Suc n)
  from Suc.prems have "expression (step s (Action ''equals'' uuid)) = ''7''"
    by (rule expression_equals_7)
  then have "successes (step s (Action ''equals'' uuid)) (replicate n (Action ''equals'' uuid)) = n"
    by (rule Suc.IH)
  with Suc.prems show ?case
    by (simp add: successful_7 del: step.simps)
qed

lemma successes_21:
  "successes initial (Input ''7'' # replicate 21 (Action ''equals'' ''id'')) = 21"
proof -
  have "expression (step initial (Input ''7'')) = ''7''"
    by (simp add: normalizeInput_def initial_def test_digit_def is_digit_def)
  then have "successes (step initial (Input ''7'')) (replicate 21 (Action ''equals'' ''id'')) = 21"
    by (rule successes_replicate_7)
  then show ?thesis
    by (simp add: successful_def del: step.simps)
qed

theorem history_bounded_newest_first_witness:
  "ClearHistory \<notin> set (Input ''7'' # replicate 21 (Action ''equals'' ''id'')) \<and>
   20 < successes initial (Input ''7'' # replicate 21 (Action ''equals'' ''id'')) \<and>
   length (history (run initial (Input ''7'' # replicate 21 (Action ''equals'' ''id'')))) = 20 \<and>
   last_entry initial (Input ''7'' # replicate 21 (Action ''equals'' ''id'')) =
     Some (history (run initial (Input ''7'' # replicate 21 (Action ''equals'' ''id''))) ! 0) \<and>
   length (history \<lparr>expression = ''7'', history = []\<rparr>) \<le> 20 \<and>
   successful \<lparr>expression = ''7'', history = []\<rparr> (Action ''equals'' ''id'') \<and>
   history (step \<lparr>expression = ''7'', history = []\<rparr> (Action ''equals'' ''id'')) ! 0 =
     made_entry \<lparr>expression = ''7'', history = []\<rparr> (Action ''equals'' ''id'')"
proof -
  have nc: "ClearHistory \<notin> set (Input ''7'' # replicate 21 (Action ''equals'' ''id''))"
    by simp
  have suc: "successful \<lparr>expression = ''7'', history = []\<rparr> (Action ''equals'' ''id'')"
    by (simp add: successful_7)
  from history_bounded_newest_first
    [of "Input ''7'' # replicate 21 (Action ''equals'' ''id'')"
        "\<lparr>expression = ''7'', history = []\<rparr>" "Action ''equals'' ''id''"]
    nc suc successes_21
  show ?thesis
    by (simp del: step.simps set_simps replicate.simps set_replicate)
qed

section \<open>The \<^verbatim>\<open>sign\<close> command\<close>

lemmas sign_eval = handleAction_def full_match_def is_digit_def Let_def

lemma sign_5_minus_3:
  "handleAction ''sign'' uuid \<lparr>expression = ''5-3'', history = h\<rparr> =
     \<lparr>expression = ''53'', history = h\<rparr>"
  by (simp add: sign_eval)

lemma sign_53:
  "handleAction ''sign'' uuid \<lparr>expression = ''53'', history = h\<rparr> =
     \<lparr>expression = ''-53'', history = h\<rparr>"
  by (simp add: sign_eval)

lemma sign_5_plus_3:
  "handleAction ''sign'' uuid \<lparr>expression = ''5+3'', history = h\<rparr> =
     \<lparr>expression = ''5+-3'', history = h\<rparr>"
  by (simp add: sign_eval)

lemma sign_5_plus_minus_3:
  "handleAction ''sign'' uuid \<lparr>expression = ''5+-3'', history = h\<rparr> =
     \<lparr>expression = ''5+3'', history = h\<rparr>"
  by (simp add: sign_eval)

lemma run_5_minus_3:
  "run initial [Input ''5'', Input ''-'', Input ''3''] = \<lparr>expression = ''5-3'', history = []\<rparr>"
  by (simp add: run_def normalizeInput_def initial_def test_digit_def is_digit_def
      operators_def operators_has_def at_last_def)

lemma run_5_plus_3:
  "run initial [Input ''5'', Input ''+'', Input ''3''] = \<lparr>expression = ''5+3'', history = []\<rparr>"
  by (simp add: run_def normalizeInput_def initial_def test_digit_def is_digit_def
      operators_def operators_has_def at_last_def)

text \<open>
  Claim C9 says that \<^verbatim>\<open>sign\<close> applied twice gives the buffer back. On the buffer \<^verbatim>\<open>5-3\<close>,
  which is typed as \<^verbatim>\<open>5\<close>, \<^verbatim>\<open>-\<close>, \<^verbatim>\<open>3\<close>, the pattern takes the binary minus for the sign of
  the last number: the first \<^verbatim>\<open>sign\<close> removes the operator and leaves \<^verbatim>\<open>53\<close>, the second
  gives \<^verbatim>\<open>-53\<close>. After another operator the command does toggle: \<^verbatim>\<open>5+3\<close> becomes \<^verbatim>\<open>5+-3\<close>
  and then \<^verbatim>\<open>5+3\<close> again.
\<close>

theorem sign_twice_5_minus_3:
  "run initial [Input ''5'', Input ''-'', Input ''3''] = \<lparr>expression = ''5-3'', history = []\<rparr> \<and>
   expression (run initial [Input ''5'', Input ''-'', Input ''3'', Action ''sign'' u1]) = ''53'' \<and>
   expression
     (run initial [Input ''5'', Input ''-'', Input ''3'', Action ''sign'' u1, Action ''sign'' u2])
     = ''-53'' \<and>
   expression
     (run initial [Input ''5'', Input ''+'', Input ''3'', Action ''sign'' u1, Action ''sign'' u2])
     = ''5+3''"
proof -
  have r: "run initial (es @ [ev]) = step (run initial es) ev" for es ev
    by (simp add: run_def)
  have "run initial [Input ''5'', Input ''-'', Input ''3'', Action ''sign'' u1] =
          \<lparr>expression = ''53'', history = []\<rparr>"
    using r [of "[Input ''5'', Input ''-'', Input ''3'']" "Action ''sign'' u1"]
    by (simp add: run_5_minus_3 sign_5_minus_3)
  moreover have
    "run initial [Input ''5'', Input ''-'', Input ''3'', Action ''sign'' u1, Action ''sign'' u2] =
       \<lparr>expression = ''-53'', history = []\<rparr>"
    using r [of "[Input ''5'', Input ''-'', Input ''3'', Action ''sign'' u1]" "Action ''sign'' u2"]
      calculation by (simp add: sign_53)
  moreover have "run initial [Input ''5'', Input ''+'', Input ''3'', Action ''sign'' u1] =
          \<lparr>expression = ''5+-3'', history = []\<rparr>"
    using r [of "[Input ''5'', Input ''+'', Input ''3'']" "Action ''sign'' u1"]
    by (simp add: run_5_plus_3 sign_5_plus_3)
  then have
    "run initial [Input ''5'', Input ''+'', Input ''3'', Action ''sign'' u1, Action ''sign'' u2] =
       \<lparr>expression = ''5+3'', history = []\<rparr>"
    using r [of "[Input ''5'', Input ''+'', Input ''3'', Action ''sign'' u1]" "Action ''sign'' u2"]
    by (simp add: sign_5_plus_minus_3)
  ultimately show ?thesis
    by (simp add: run_5_minus_3)
qed

section \<open>The tokens of the tokenizer\<close>

lemma number_token_single: "is_digit c \<or> c = CHR ''.'' \<Longrightarrow> number_token [c]"
  by (auto simp: number_token_def is_digit_def)

lemma number_token_snoc:
  "number_token t \<Longrightarrow> is_digit c \<or> c = CHR ''.'' \<Longrightarrow> number_token (t @ [c])"
  by (cases t) (auto simp: number_token_def Let_def split: if_splits)

lemma number_token_minus: "is_digit c \<or> c = CHR ''.'' \<Longrightarrow> number_token (''-'' @ [c])"
  by (auto simp: number_token_def)

lemma number_token_not_operator: "number_token t \<Longrightarrow> t \<notin> operators"
  by (auto simp: number_token_def operators_def is_digit_def)

lemma separated_snoc:
  assumes "\<forall>i. Suc i < length ts \<longrightarrow> ts ! i \<in> operators \<or> ts ! Suc i \<in> operators"
    and "ts = [] \<or> last ts \<in> operators \<or> x \<in> operators"
  shows "\<forall>i. Suc i < length (ts @ [x]) \<longrightarrow>
           (ts @ [x]) ! i \<in> operators \<or> (ts @ [x]) ! Suc i \<in> operators"
proof (intro allI impI)
  fix i
  assume i: "Suc i < length (ts @ [x])"
  show "(ts @ [x]) ! i \<in> operators \<or> (ts @ [x]) ! Suc i \<in> operators"
  proof (cases "Suc i < length ts")
    case True
    with assms(1) show ?thesis by (simp add: nth_append)
  next
    case False
    with i have len: "Suc i = length ts" by simp
    then have "ts \<noteq> []" by auto
    then have "last ts = ts ! (length ts - 1)" by (rule last_conv_nth)
    moreover from len have "length ts - 1 = i" by arith
    ultimately have "last ts = ts ! i" by simp
    with assms(2) len \<open>ts \<noteq> []\<close> show ?thesis
      by (auto simp: nth_append)
  qed
qed

lemma tokenize_inv_init: "tokenize_inv raw 0 ([], [])"
  by (simp add: tokenize_inv_def)

lemma tokenize_body_inv:
  assumes inv: "tokenize_inv raw k st" and k: "k < length raw"
  shows "tokenize_inv raw (Suc k) (tokenize_body raw k st)"
proof -
  obtain tokens nb where st: "st = (tokens, nb)"
    by (cases st)
  let ?c = "raw ! k"
  have at: "str_at raw (int k) = Some [?c]"
    using k by (simp add: str_at_def)
  have prev: "str_at raw (int (Suc k) - 1) = Some [?c]"
    using at by simp
  from inv st have I1: "\<forall>t \<in> set tokens. t \<in> operators \<or> number_token t"
    and I2: "\<forall>i. Suc i < length tokens \<longrightarrow>
               tokens ! i \<in> operators \<or> tokens ! Suc i \<in> operators"
    and I3: "tokens = [] \<or> last tokens \<in> operators"
    and I4: "nb = [] \<or> number_token nb \<or>
             (nb = ''-'' \<and> test_digit_or_dot (str_at raw (int k)))"
    and I5: "k = 0 \<or> operators_has (str_at raw (int k - 1)) \<longrightarrow> nb = [] \<or> nb = ''-''"
    by (simp_all add: tokenize_inv_def)
  have test: "test_digit_or_dot (str_at raw (int k)) = (is_digit ?c \<or> ?c = CHR ''.'')"
    by (simp add: at test_digit_or_dot_def)
  have not_minus: "\<not> number_token ''-''"
    by (simp add: number_token_def)
  consider (num) "is_digit ?c \<or> ?c = CHR ''.''"
    | (unary) "\<not> (is_digit ?c \<or> ?c = CHR ''.'')" "unaryMinus raw k"
    | (op) "\<not> (is_digit ?c \<or> ?c = CHR ''.'')" "\<not> unaryMinus raw k" "[?c] \<in> operators"
    | (other) "\<not> (is_digit ?c \<or> ?c = CHR ''.'')" "\<not> unaryMinus raw k" "[?c] \<notin> operators"
    by blast
  then show ?thesis
  proof cases
    case num
    then have body: "tokenize_body raw k st = (tokens, nb @ [?c])"
      by (simp add: tokenize_body_def st at test_digit_or_dot_def)
    from num have nop: "\<not> operators_has (Some [?c])"
      by (auto simp: operators_has_def operators_def is_digit_def)
    from I4 num test have "number_token (nb @ [?c])"
      using number_token_single [of ?c] number_token_snoc [of nb ?c] number_token_minus [of ?c]
      by auto
    with I1 I2 I3 nop show ?thesis
      unfolding body tokenize_inv_def prev by auto
  next
    case unary
    then have body: "tokenize_body raw k st = (tokens, nb @ ''-'')"
      and next_ok: "test_digit_or_dot (str_at raw (int (Suc k)))"
      and before: "k = 0 \<or> operators_has (str_at raw (int k - 1))"
      and minus: "?c = CHR ''-''"
      by (auto simp: tokenize_body_def st at unaryMinus_def add.commute)
    from I5 before have "nb = [] \<or> nb = ''-''" by blast
    moreover from I4 not_minus test unary(1) have "nb \<noteq> ''-''" by auto
    ultimately have "nb = []" by blast
    with I1 I2 I3 next_ok show ?thesis
      unfolding body tokenize_inv_def by auto
  next
    case op
    let ?ts = "if nb \<noteq> [] then tokens @ [nb] else tokens"
    from op have body: "tokenize_body raw k st = (?ts @ [[?c]], [])"
      by (simp add: tokenize_body_def st at test_digit_or_dot_def)
    from I4 test op(1) have nb: "nb = [] \<or> number_token nb" by auto
    have ts1: "\<forall>t \<in> set ?ts. t \<in> operators \<or> number_token t"
      using I1 nb by auto
    have ts2: "\<forall>i. Suc i < length ?ts \<longrightarrow> ?ts ! i \<in> operators \<or> ?ts ! Suc i \<in> operators"
      using separated_snoc [OF I2, of nb] I2 I3 by auto
    have "\<forall>i. Suc i < length (?ts @ [[?c]]) \<longrightarrow>
            (?ts @ [[?c]]) ! i \<in> operators \<or> (?ts @ [[?c]]) ! Suc i \<in> operators"
      using ts2 op(3) by (intro separated_snoc) auto
    moreover have "\<forall>t \<in> set (?ts @ [[?c]]). t \<in> operators \<or> number_token t"
      using ts1 op(3) by auto
    ultimately show ?thesis
      unfolding body tokenize_inv_def using op(3) by simp
  next
    case other
    then have body: "tokenize_body raw k st = (tokens, nb)"
      by (simp add: tokenize_body_def st at test_digit_or_dot_def)
    from other(3) have nop: "\<not> operators_has (Some [?c])"
      by (simp add: operators_has_def)
    from I4 test other(1) have "nb = [] \<or> number_token nb" by auto
    with I1 I2 I3 nop show ?thesis
      unfolding body tokenize_inv_def prev by auto
  qed
qed

lemma tokenize_loop_inv:
  "k \<le> length raw \<Longrightarrow> tokenize_inv raw k (fold (tokenize_body raw) [0 ..< k] ([], []))"
proof (induction k)
  case 0
  show ?case by (simp add: tokenize_inv_init)
next
  case (Suc k)
  then have "tokenize_inv raw k (fold (tokenize_body raw) [0 ..< k] ([], []))"
    and "k < length raw"
    by simp_all
  then have "tokenize_inv raw (Suc k)
      (tokenize_body raw k (fold (tokenize_body raw) [0 ..< k] ([], [])))"
    by (rule tokenize_body_inv)
  then show ?case by simp
qed

lemma tokenize_dot: "tokenize ''.'' = [''.'']"
  by (simp add: string_eval upt_rec)

lemma tokenize_0_0_5: "tokenize ''0.0.5'' = [''0.0.5'']"
  by (simp add: string_eval upt_rec)

lemma parseFloat_dot: "parseFloat ''.'' = NaN"
  by (simp add: parse_eval)

lemma run_dot_minus_dot_5:
  "run initial [Input ''.'', Input ''-'', Input ''.'', Input ''5''] =
     \<lparr>expression = ''0.-0.5'', history = []\<rparr>"
  by (simp add: run_def normalizeInput_def initial_def test_digit_def is_digit_def
      operators_def operators_has_def at_last_def last_segment_def is_operator_char_def)

lemma sign_0_minus_0_5:
  "handleAction ''sign'' uuid \<lparr>expression = ''0.-0.5'', history = h\<rparr> =
     \<lparr>expression = ''0.0.5'', history = h\<rparr>"
  by (simp add: sign_eval)

text \<open>
  Claim C10 says that every token of \<^verbatim>\<open>tokenize\<close> is an operator or a non-empty numeric
  string. The input \<^verbatim>\<open>.\<close> gives the single token \<^verbatim>\<open>.\<close>, which is no operator and no
  numeral (\<^verbatim>\<open>parseFloat\<close> reads it as NaN). The keys \<^verbatim>\<open>.\<close>, \<^verbatim>\<open>-\<close>, \<^verbatim>\<open>.\<close>, \<^verbatim>\<open>5\<close> and then \<^verbatim>\<open>sign\<close>
  leave the buffer \<^verbatim>\<open>0.0.5\<close>, which is one token with two dots.
\<close>

theorem tokenize_token_not_numeric:
  "tokenize ''.'' = [''.''] \<and> ''.'' \<notin> operators \<and> \<not> numeric_string ''.'' \<and>
   parseFloat ''.'' = NaN \<and>
   expression
     (run initial [Input ''.'', Input ''-'', Input ''.'', Input ''5'', Action ''sign'' ''id'']) =
     ''0.0.5'' \<and>
   tokenize ''0.0.5'' = [''0.0.5''] \<and> ''0.0.5'' \<notin> operators \<and>
   \<not> numeric_string ''0.0.5''"
proof -
  have "run initial ([Input ''.'', Input ''-'', Input ''.'', Input ''5''] @
        [Action ''sign'' ''id'']) =
      step (run initial [Input ''.'', Input ''-'', Input ''.'', Input ''5''])
        (Action ''sign'' ''id'')"
    by (simp add: run_def)
  then have "expression
      (run initial [Input ''.'', Input ''-'', Input ''.'', Input ''5'', Action ''sign'' ''id'']) =
      ''0.0.5''"
    by (simp add: run_dot_minus_dot_5 sign_0_minus_0_5)
  moreover have "''.'' \<notin> operators" "''0.0.5'' \<notin> operators"
    by (simp_all add: operators_def)
  moreover have "\<not> numeric_string ''.''" "\<not> numeric_string ''0.0.5''"
    by (simp_all add: numeric_string_def is_digit_def)
  ultimately show ?thesis
    by (simp add: tokenize_dot tokenize_0_0_5 parseFloat_dot)
qed

text \<open>
  Claim C10, amended. For every input string, every token that \<^verbatim>\<open>tokenize\<close> produces is one
  of the four operator strings or a non-empty string made of an optional leading minus
  sign followed by one or more characters that are digits or dots (such a token is no
  operator, and it need not be a numeral), and no two of these number tokens are
  adjacent: of any two neighbouring tokens at least one is an operator.
\<close>

theorem tokenize_tokens:
  "(\<forall>t \<in> set (tokenize raw). t \<in> operators \<or> number_token t) \<and>
   (\<forall>t \<in> set (tokenize raw). \<not> (t \<in> operators \<and> number_token t)) \<and>
   (\<forall>i. Suc i < length (tokenize raw) \<longrightarrow>
      tokenize raw ! i \<in> operators \<or> tokenize raw ! Suc i \<in> operators)"
proof -
  obtain tokens nb where f: "fold (tokenize_body raw) [0 ..< length raw] ([], []) = (tokens, nb)"
    by (cases "fold (tokenize_body raw) [0 ..< length raw] ([], [])")
  have "tokenize_inv raw (length raw) (tokens, nb)"
    using tokenize_loop_inv [of "length raw" raw] f by simp
  then have I1: "\<forall>t \<in> set tokens. t \<in> operators \<or> number_token t"
    and I2: "\<forall>i. Suc i < length tokens \<longrightarrow>
               tokens ! i \<in> operators \<or> tokens ! Suc i \<in> operators"
    and I3: "tokens = [] \<or> last tokens \<in> operators"
    and I4: "nb = [] \<or> number_token nb"
    by (simp_all add: tokenize_inv_def str_at_def test_digit_or_dot_def)
  have eq: "tokenize raw = (if nb \<noteq> [] then tokens @ [nb] else tokens)"
    by (simp add: tokenize_def f)
  have "\<forall>t \<in> set (tokenize raw). t \<in> operators \<or> number_token t"
    unfolding eq using I1 I4 by auto
  moreover have "\<forall>i. Suc i < length (tokenize raw) \<longrightarrow>
      tokenize raw ! i \<in> operators \<or> tokenize raw ! Suc i \<in> operators"
    unfolding eq using separated_snoc [OF I2, of nb] I2 I3 by auto
  ultimately show ?thesis
    using number_token_not_operator by blast
qed

theorem tokenize_tokens_witness:
  "tokenize ''-5+2'' = [''-5'', ''+'', ''2''] \<and>
   number_token ''-5'' \<and> ''-5'' \<notin> operators \<and> ''+'' \<in> operators \<and> number_token ''2'' \<and>
   ''2'' \<notin> operators"
proof -
  have "''+'' \<in> operators" "number_token ''-5''" "number_token ''2''"
    by (simp_all add: operators_def number_token_def is_digit_def)
  with tokenize_tokens [of "''-5+2''"] show ?thesis
    by (simp add: tokenize_minus_5_2)
qed

section \<open>The position of a minus sign\<close>

lemma tokenize_flush: "tokenize raw = flush (fold (tokenize_body raw) [0 ..< length raw] ([], []))"
  by (simp add: tokenize_def flush_def)

lemma str_at_append_left: "j < int (length xs) \<Longrightarrow> str_at (xs @ ys) j = str_at xs j"
  by (auto simp: str_at_def nth_append)

lemma str_at_append_right:
  "int (length xs) \<le> j \<Longrightarrow> str_at (xs @ ys) j = str_at ys (j - int (length xs))"
  by (auto simp: str_at_def nth_append nat_diff_distrib)

lemma str_at_Cons_0: "str_at (c # cs) 0 = Some [c]"
  by (simp add: str_at_def)

lemma str_at_Cons_pos: "0 < j \<Longrightarrow> str_at (c # cs) j = str_at cs (j - 1)"
  by (auto simp: str_at_def nat_diff_distrib)

lemma str_at_end: "int (length xs) \<le> j \<Longrightarrow> str_at xs j = None"
  by (simp add: str_at_def)

lemma str_at_negative: "j < 0 \<Longrightarrow> str_at xs j = None"
  by (simp add: str_at_def)

text \<open>An iteration reads the characters at \<open>i - 1\<close>, \<open>i\<close> and \<open>i + 1\<close> only.\<close>

lemma tokenize_body_cong:
  assumes "str_at raw (int i) = str_at raw' (int i')"
    and "(i = 0 \<or> operators_has (str_at raw (int i - 1))) =
         (i' = 0 \<or> operators_has (str_at raw' (int i' - 1)))"
    and "test_digit_or_dot (str_at raw (int i + 1)) =
         test_digit_or_dot (str_at raw' (int i' + 1))"
  shows "tokenize_body raw i = tokenize_body raw' i'"
proof -
  have "unaryMinus raw i = unaryMinus raw' i'"
    using assms by (simp add: unaryMinus_def)
  then show ?thesis
    by (intro ext) (simp only: tokenize_body_def assms(1))
qed

lemma tokenize_body_before:
  assumes "i < length pre"
  shows "tokenize_body (pre @ CHR ''-'' # post) i = tokenize_body pre i"
proof (rule tokenize_body_cong)
  show "str_at (pre @ CHR ''-'' # post) (int i) = str_at pre (int i)"
    using assms by (simp add: str_at_append_left)
  show "(i = 0 \<or> operators_has (str_at (pre @ CHR ''-'' # post) (int i - 1))) =
        (i = 0 \<or> operators_has (str_at pre (int i - 1)))"
    using assms by (simp add: str_at_append_left)
  show "test_digit_or_dot (str_at (pre @ CHR ''-'' # post) (int i + 1)) =
        test_digit_or_dot (str_at pre (int i + 1))"
  proof (cases "Suc i < length pre")
    case True
    then show ?thesis by (simp add: str_at_append_left)
  next
    case False
    with assms have "int i + 1 = int (length pre)" by simp
    then show ?thesis
      by (simp add: str_at_append_right str_at_end str_at_Cons_0 test_digit_or_dot_def
          is_digit_def)
  qed
qed

lemma tokenize_body_after:
  "tokenize_body (pre @ CHR ''-'' # post) (Suc (length pre + j)) = tokenize_body post j"
proof (rule tokenize_body_cong)
  show "str_at (pre @ CHR ''-'' # post) (int (Suc (length pre + j))) = str_at post (int j)"
    by (simp add: str_at_append_right str_at_Cons_pos)
  show "(Suc (length pre + j) = 0 \<or>
         operators_has (str_at (pre @ CHR ''-'' # post) (int (Suc (length pre + j)) - 1))) =
        (j = 0 \<or> operators_has (str_at post (int j - 1)))"
  proof (cases "j = 0")
    case True
    then show ?thesis
      by (simp add: str_at_append_right str_at_Cons_0 operators_has_def operators_def)
  next
    case False
    then show ?thesis
      by (simp add: str_at_append_right str_at_Cons_pos)
  qed
  show "test_digit_or_dot (str_at (pre @ CHR ''-'' # post) (int (Suc (length pre + j)) + 1)) =
        test_digit_or_dot (str_at post (int j + 1))"
    by (simp add: str_at_append_right str_at_Cons_pos add.commute)
qed

lemma unaryMinus_at:
  "unaryMinus (pre @ CHR ''-'' # post) (length pre) =
     ((pre = [] \<or> is_operator_char (last pre)) \<and>
      post \<noteq> [] \<and> (is_digit (hd post) \<or> hd post = CHR ''.''))"
proof -
  have here: "str_at (pre @ CHR ''-'' # post) (int (length pre)) = Some ''-''"
    by (simp add: str_at_append_right str_at_Cons_0)
  have before: "(length pre = 0 \<or> operators_has (str_at (pre @ CHR ''-'' # post) (int (length pre) - 1)))
      = (pre = [] \<or> is_operator_char (last pre))"
  proof (cases "pre = []")
    case True
    then show ?thesis by simp
  next
    case False
    then obtain k where k: "length pre = Suc k"
      by (cases pre) auto
    with False have "last pre = pre ! k"
      by (simp add: last_conv_nth)
    moreover have "str_at (pre @ CHR ''-'' # post) (int (length pre) - 1) = Some [pre ! k]"
      using k by (simp add: str_at_def nth_append)
    ultimately show ?thesis
      using False by (simp add: operators_has_def is_operator_char_def)
  qed
  have after: "test_digit_or_dot (str_at (pre @ CHR ''-'' # post) (int (length pre) + 1)) =
      (post \<noteq> [] \<and> (is_digit (hd post) \<or> hd post = CHR ''.''))"
    by (cases post)
      (simp_all add: str_at_append_right str_at_Cons_pos str_at_Cons_0 str_at_end
        test_digit_or_dot_def)
  show ?thesis
    unfolding unaryMinus_def here before after by simp
qed

lemma upt_split3: "[0 ..< length (pre @ CHR ''-'' # post)] =
    [0 ..< length pre] @ [length pre] @ map (\<lambda>j. Suc (length pre + j)) [0 ..< length post]"
proof -
  let ?n = "length pre" and ?m = "length post"
  have "map (\<lambda>j. j + Suc ?n) [0 ..< ?m] = [Suc ?n ..< ?m + Suc ?n]"
    by (rule map_add_upt)
  moreover have "(\<lambda>j. j + Suc ?n) = (\<lambda>j. Suc (?n + j))" "?m + Suc ?n = ?n + Suc ?m"
    by (simp_all add: fun_eq_iff)
  ultimately have "[Suc ?n ..< ?n + Suc ?m] = map (\<lambda>j. Suc (?n + j)) [0 ..< ?m]"
    by (simp only:)
  moreover have "[0 ..< ?n + Suc ?m] = [0 ..< ?n] @ [?n ..< ?n + Suc ?m]"
    by (rule upt_add_eq_append) simp
  moreover have "[?n ..< ?n + Suc ?m] = ?n # [Suc ?n ..< ?n + Suc ?m]"
    by (rule upt_conv_Cons) simp
  moreover have "length (pre @ CHR ''-'' # post) = ?n + Suc ?m"
    by simp
  ultimately show ?thesis
    by (simp only: append_Cons append_Nil)
qed

lemma fold_tokenize_split:
  "fold (tokenize_body (pre @ CHR ''-'' # post)) [0 ..< length (pre @ CHR ''-'' # post)] st =
     fold (tokenize_body post) [0 ..< length post]
       (tokenize_body (pre @ CHR ''-'' # post) (length pre)
          (fold (tokenize_body pre) [0 ..< length pre] st))"
proof -
  have 1: "fold (tokenize_body (pre @ CHR ''-'' # post)) [0 ..< length pre] st =
      fold (tokenize_body pre) [0 ..< length pre] st"
    by (rule fold_cong) (simp_all add: tokenize_body_before)
  have 2: "fold (tokenize_body (pre @ CHR ''-'' # post))
        (map (\<lambda>j. Suc (length pre + j)) [0 ..< length post]) st' =
      fold (tokenize_body post) [0 ..< length post] st'" for st'
    unfolding fold_map by (rule fold_cong) (simp_all add: tokenize_body_after)
  show ?thesis
    unfolding upt_split3 fold_append comp_def 1 2 by simp
qed

text \<open>Tokens already pushed are not touched again.\<close>

lemma tokenize_body_tokens:
  "tokenize_body raw i (ts0 @ ts, nb) =
     (ts0 @ fst (tokenize_body raw i (ts, nb)), snd (tokenize_body raw i (ts, nb)))"
  by (simp add: tokenize_body_def split: option.splits)

lemma fold_tokenize_body_tokens:
  "fold (tokenize_body raw) is (ts0 @ ts, nb) =
     (ts0 @ fst (fold (tokenize_body raw) is (ts, nb)),
      snd (fold (tokenize_body raw) is (ts, nb)))"
proof (induction "is" arbitrary: ts nb)
  case Nil
  show ?case by simp
next
  case (Cons i "is")
  obtain ts' nb' where step: "tokenize_body raw i (ts, nb) = (ts', nb')"
    by (cases "tokenize_body raw i (ts, nb)")
  then have "tokenize_body raw i (ts0 @ ts, nb) = (ts0 @ ts', nb')"
    by (simp add: tokenize_body_tokens)
  with step Cons.IH [of ts' nb'] show ?case
    by simp
qed

lemma flush_tokens: "flush (ts0 @ ts, nb) = ts0 @ flush (ts, nb)"
  by (simp add: flush_def)

text \<open>A number begun with extra characters stays the same number with these in front.\<close>

lemma tokenize_body_glued:
  assumes "glued x st1 st2"
  shows "glued x (tokenize_body raw i st1) (tokenize_body raw i st2)"
proof -
  obtain ts1 nb1 ts2 nb2 where st: "st1 = (ts1, nb1)" "st2 = (ts2, nb2)"
    by (cases st1, cases st2) auto
  from assms show ?thesis
    unfolding st glued_def tokenize_body_def
    by (auto split: option.splits)
qed

lemma fold_tokenize_body_glued:
  "glued x st1 st2 \<Longrightarrow>
     glued x (fold (tokenize_body raw) is st1) (fold (tokenize_body raw) is st2)"
  by (induction "is" arbitrary: st1 st2) (simp_all add: tokenize_body_glued)

lemma flush_glued:
  "glued x st1 st2 \<Longrightarrow> \<exists>t ts. flush st1 = t # ts \<and> flush st2 = (x @ t) # ts"
  by (cases st1, cases st2) (auto simp: glued_def flush_def)

lemma buffer_empty_after_operator:
  assumes "pre \<noteq> []" and "is_operator_char (last pre)"
  shows "snd (fold (tokenize_body pre) [0 ..< length pre] st) = []"
proof -
  from assms(1) obtain k where k: "length pre = Suc k"
    by (cases pre) auto
  with assms(1) have last: "last pre = pre ! k"
    by (simp add: last_conv_nth)
  have at: "str_at pre (int k) = Some [pre ! k]"
    using k by (simp add: str_at_def)
  have "str_at pre (int k + 1) = None"
    using k by (simp add: str_at_def)
  then have nu: "\<not> unaryMinus pre k"
    by (simp add: unaryMinus_def test_digit_or_dot_def)
  from assms(2) last have op: "[pre ! k] \<in> operators" and
    nd: "\<not> test_digit_or_dot (Some [pre ! k])"
    by (auto simp: is_operator_char_def test_digit_or_dot_def operators_def is_digit_def)
  have "snd (tokenize_body pre k st') = []" for st'
    by (cases st') (simp add: tokenize_body_def at nu op nd)
  then show ?thesis
    unfolding k by simp
qed

lemma tokenize_binary_minus:
  assumes "\<not> unaryMinus (pre @ CHR ''-'' # post) (length pre)"
  shows "tokenize (pre @ CHR ''-'' # post) = tokenize pre @ [''-''] @ tokenize post"
proof -
  obtain tp nbp where p: "fold (tokenize_body pre) [0 ..< length pre] ([], []) = (tp, nbp)"
    by (cases "fold (tokenize_body pre) [0 ..< length pre] ([], [])")
  have here: "str_at (pre @ CHR ''-'' # post) (int (length pre)) = Some ''-''"
    by (simp add: str_at_append_right str_at_Cons_0)
  have step: "tokenize_body (pre @ CHR ''-'' # post) (length pre) (tp, nbp) =
      (flush (tp, nbp) @ [''-''] @ [], [])"
    using assms
    by (simp add: tokenize_body_def here test_digit_or_dot_def is_digit_def operators_def
        flush_def)
  have "tokenize (pre @ CHR ''-'' # post) =
      flush (fold (tokenize_body post) [0 ..< length post] ((flush (tp, nbp) @ [''-'']) @ [], []))"
    unfolding tokenize_flush fold_tokenize_split p step by simp
  also have "\<dots> = (flush (tp, nbp) @ [''-'']) @
      flush (fold (tokenize_body post) [0 ..< length post] ([], []))"
    unfolding fold_tokenize_body_tokens [of post _ "flush (tp, nbp) @ [''-'']" "[]" "[]"]
    by (simp add: flush_def split: prod.splits)
  finally show ?thesis
    by (simp add: tokenize_flush p)
qed

lemma tokenize_unary_minus:
  assumes "unaryMinus (pre @ CHR ''-'' # post) (length pre)"
  shows "\<exists>t ts. tokenize post = t # ts \<and>
           tokenize (pre @ CHR ''-'' # post) = tokenize pre @ (''-'' @ t) # ts"
proof -
  from assms have pre: "pre = [] \<or> is_operator_char (last pre)"
    and post: "post \<noteq> []" "is_digit (hd post) \<or> hd post = CHR ''.''"
    by (simp_all add: unaryMinus_at)
  obtain tp nbp where p: "fold (tokenize_body pre) [0 ..< length pre] ([], []) = (tp, nbp)"
    by (cases "fold (tokenize_body pre) [0 ..< length pre] ([], [])")
  have "nbp = []"
  proof (cases "pre = []")
    case True
    with p show ?thesis by simp
  next
    case False
    with pre have "snd (fold (tokenize_body pre) [0 ..< length pre] ([], [])) = []"
      by (intro buffer_empty_after_operator) auto
    with p show ?thesis by simp
  qed
  with p have tp: "tokenize pre = tp"
    by (simp add: tokenize_flush flush_def)
  have here: "str_at (pre @ CHR ''-'' # post) (int (length pre)) = Some ''-''"
    by (simp add: str_at_append_right str_at_Cons_0)
  have step: "tokenize_body (pre @ CHR ''-'' # post) (length pre) (tp, nbp) = (tp @ [], ''-'')"
    using assms \<open>nbp = []\<close> by (simp add: tokenize_body_def here)
  from post obtain c cs where c: "post = c # cs" "is_digit c \<or> c = CHR ''.''"
    by (cases post) auto
  have first: "tokenize_body post 0 (ts, nb) = (ts, nb @ [c])" for ts nb
    using c by (auto simp: tokenize_body_def str_at_def test_digit_or_dot_def)
  have upt: "[0 ..< length post] = 0 # [Suc 0 ..< length post]"
    by (rule upt_conv_Cons) (simp add: c(1))
  have "glued ''-'' ([], [c]) ([], ''-'' @ [c])"
    by (simp add: glued_def)
  then have "glued ''-'' (fold (tokenize_body post) [Suc 0 ..< length post] ([], [c]))
      (fold (tokenize_body post) [Suc 0 ..< length post] ([], ''-'' @ [c]))"
    by (rule fold_tokenize_body_glued)
  then have "glued ''-'' (fold (tokenize_body post) [0 ..< length post] ([], []))
      (fold (tokenize_body post) [0 ..< length post] ([], ''-''))"
    unfolding upt by (simp add: first)
  then obtain t ts where t: "flush (fold (tokenize_body post) [0 ..< length post] ([], [])) = t # ts"
    "flush (fold (tokenize_body post) [0 ..< length post] ([], ''-'')) = (''-'' @ t) # ts"
    using flush_glued by blast
  have "tokenize (pre @ CHR ''-'' # post) =
      flush (fold (tokenize_body post) [0 ..< length post] (tp @ [], ''-''))"
    unfolding tokenize_flush fold_tokenize_split p step by simp
  also have "\<dots> = tp @ flush (fold (tokenize_body post) [0 ..< length post] ([], ''-''))"
    unfolding fold_tokenize_body_tokens [of post _ tp "[]" "''-''"]
    by (simp add: flush_def split: prod.splits)
  finally have "tokenize (pre @ CHR ''-'' # post) = tokenize pre @ (''-'' @ t) # ts"
    by (simp add: t tp)
  with t(1) show ?thesis
    by (simp add: tokenize_flush)
qed

lemma number_value_minus_3: "number_value (Num (Fin (- 3) 0)) = Some (- 3)"
  by (simp add: number_value_def)

text \<open>
  Claim C4. A character \<^verbatim>\<open>-\<close> of the input, with \<open>pre\<close> before it and \<open>post\<close> after it, is
  part of a number exactly when it is the first character or follows an operator
  character, and the next character is a digit or a dot: then it is the first character
  of the number token that begins \<open>post\<close>, and the tokens before and after are those of
  \<open>pre\<close> and \<open>post\<close>. In every other position it is the operator token \<^verbatim>\<open>-\<close> between the
  tokens of \<open>pre\<close> and those of \<open>post\<close>. In particular \<^verbatim>\<open>evaluateExpression("-5+2")\<close> is \<open>-3\<close>.
\<close>

theorem minus_unary_or_binary:
  "unaryMinus (pre @ ''-'' @ post) (length pre) =
     ((pre = [] \<or> is_operator_char (last pre)) \<and>
      post \<noteq> [] \<and> (is_digit (hd post) \<or> hd post = CHR ''.'')) \<and>
   ((pre = [] \<or> is_operator_char (last pre)) \<and>
    post \<noteq> [] \<and> (is_digit (hd post) \<or> hd post = CHR ''.'') \<longrightarrow>
      (\<exists>t ts. tokenize post = t # ts \<and>
         tokenize (pre @ ''-'' @ post) = tokenize pre @ (''-'' @ t) # ts)) \<and>
   (\<not> ((pre = [] \<or> is_operator_char (last pre)) \<and>
       post \<noteq> [] \<and> (is_digit (hd post) \<or> hd post = CHR ''.'')) \<longrightarrow>
      tokenize (pre @ ''-'' @ post) = tokenize pre @ [''-''] @ tokenize post) \<and>
   number_value (evaluateExpression ''-5+2'') = Some (- 3)"
  using tokenize_unary_minus [of pre post] tokenize_binary_minus [of pre post]
    unaryMinus_at [of pre post]
  by (simp add: evaluateExpression_minus_5_2 number_value_minus_3)

lemma tokenize_3: "tokenize ''3'' = [''3'']"
  by (simp add: string_eval upt_rec)

lemma tokenize_5: "tokenize ''5'' = [''5'']"
  by (simp add: string_eval upt_rec)

lemma tokenize_5_plus: "tokenize ''5+'' = [''5'', ''+'']"
  by (simp add: string_eval upt_rec)

theorem minus_unary_or_binary_witness:
  "(''5+'' = [] \<or> is_operator_char (last ''5+'')) \<and>
   ''3'' \<noteq> [] \<and> (is_digit (hd ''3'') \<or> hd ''3'' = CHR ''.'') \<and>
   tokenize (''5+'' @ ''-'' @ ''3'') = [''5'', ''+'', ''-3''] \<and>
   \<not> ((''5'' = [] \<or> is_operator_char (last ''5'')) \<and>
      ''3'' \<noteq> [] \<and> (is_digit (hd ''3'') \<or> hd ''3'' = CHR ''.'')) \<and>
   tokenize (''5'' @ ''-'' @ ''3'') = [''5'', ''-'', ''3'']"
proof -
  have a: "is_operator_char (last ''5+'')" "is_digit (hd ''3'')" "\<not> is_operator_char (last ''5'')"
    by (simp_all add: is_operator_char_def operators_def is_digit_def)
  from minus_unary_or_binary [of "''5+''" "''3''"] a
  have "\<exists>t ts. tokenize ''3'' = t # ts \<and>
          tokenize (''5+'' @ ''-'' @ ''3'') = tokenize ''5+'' @ (''-'' @ t) # ts"
    by simp
  then have u: "tokenize (''5+'' @ ''-'' @ ''3'') = [''5'', ''+'', ''-3'']"
    by (auto simp: tokenize_3 tokenize_5_plus)
  from minus_unary_or_binary [of "''5''" "''3''"] a
  have b: "tokenize (''5'' @ ''-'' @ ''3'') = [''5'', ''-'', ''3'']"
    by (simp add: tokenize_3 tokenize_5)
  from a u b show ?thesis
    by simp
qed

section \<open>Signs of numbers\<close>

lemma norm_dyadic_sign: "norm_dyadic m e = (m', e') \<Longrightarrow> (m' < 0) = (m < 0)"
proof (induction m e rule: norm_dyadic.induct)
  case (1 m e)
  show ?case
  proof (cases "m = 0")
    case True
    from "1.prems" show ?thesis
      by (subst (asm) norm_dyadic.simps) (simp add: True)
  next
    case False
    show ?thesis
    proof (cases "even m")
      case True
      from "1.prems" have "norm_dyadic (m div 2) (e + 1) = (m', e')"
        by (subst (asm) norm_dyadic.simps) (simp add: True False)
      with "1.IH" False True have "(m' < 0) = (m div 2 < 0)"
        by simp
      then show ?thesis by simp
    next
      case odd: False
      from "1.prems" show ?thesis
        by (subst (asm) norm_dyadic.simps) (simp add: odd False)
    qed
  qed
qed

lemma mk_fin_negative: "is_negative (mk_fin n e) = (n < 0)"
proof -
  obtain m' e' where eq: "norm_dyadic n e = (m', e')"
    by (cases "norm_dyadic n e")
  from norm_dyadic_sign [OF eq] show ?thesis
    by (simp add: mk_fin_def eq is_negative_def)
qed

lemma round_pos_not_negative:
  assumes "0 \<le> p" and "0 < d"
  shows "\<not> is_negative (round_pos p d)"
proof -
  define e where "e = max (ilog 2 p d - 52) (- 1074)"
  define P where "P = (if e < 0 then p * 2 ^ nat (- e) else p)"
  define D where "D = (if e < 0 then d else d * 2 ^ nat e)"
  define n where "n = (if 2 * (P mod D) < D then P div D
    else if D < 2 * (P mod D) then P div D + 1
    else if even (P div D) then P div D else P div D + 1)"
  have "0 \<le> P" "0 < D"
    using assms by (simp_all add: P_def D_def)
  then have "0 \<le> P div D"
    by (simp add: pos_imp_zdiv_nonneg_iff)
  then have "0 \<le> n"
    by (simp add: n_def)
  moreover have "round_pos p d = (if 1024 < int (ndigits 2 (nat n)) + e then PInf else mk_fin n e)"
    by (simp only: round_pos_def Let_def e_def P_def D_def n_def)
  moreover have "\<not> is_negative PInf"
    by (simp add: is_negative_def)
  ultimately show ?thesis
    by (simp add: mk_fin_negative)
qed

lemma round64_not_negative:
  assumes "0 \<le> p" and "0 < d"
  shows "\<not> is_negative (round64 p d)"
proof (cases "p = 0")
  case True
  then show ?thesis
    by (simp add: round64_def is_negative_def)
next
  case False
  with assms have "round64 p d = round_pos p d"
    by (simp add: round64_def)
  with assms show ?thesis
    by (simp add: round_pos_not_negative)
qed

lemma jsdiv_100_negative: "is_negative (jsdiv x num_100) \<Longrightarrow> is_negative x"
proof (cases x)
  case (Fin m e)
  assume neg: "is_negative (jsdiv x num_100)"
  show ?thesis
  proof (rule ccontr)
    assume "\<not> is_negative x"
    with Fin have "0 \<le> m" by (simp add: is_negative_def)
    then have "\<not> is_negative (round64 (m * 2 ^ nat (e - 2)) (25 * 2 ^ nat (2 - e)))"
      by (intro round64_not_negative) simp_all
    with neg Fin show False
      by (simp add: jsdiv_def num_100_def)
  qed
qed (simp_all add: jsdiv_def num_100_def is_negative_def)

lemma parse_unsigned_not_negative: "\<not> is_negative (parse_unsigned s)"
proof -
  have "\<not> is_negative (round64 (int a * 10 ^ b) 1)" "\<not> is_negative (round64 (int a) (10 ^ b))"
    for a b :: nat
    by (simp_all add: round64_not_negative)
  then show ?thesis
    by (simp add: parse_unsigned_def Let_def is_negative_def)
qed

lemma parseFloat_negative:
  assumes "is_negative (parseFloat s)" and "s \<noteq> []" and "is_digit (hd s) \<or> hd s = CHR ''.'' \<or> hd s = CHR ''-''"
  shows "hd s = CHR ''-''"
proof -
  from assms(2) obtain c r where s: "s = c # r" by (cases s) auto
  with assms(3) have nws: "\<not> is_whitespace c"
    by (auto simp: is_whitespace_def is_digit_def)
  show ?thesis
  proof (rule ccontr)
    assume "hd s \<noteq> CHR ''-''"
    with s nws have "parseFloat s = parse_unsigned r \<or> parseFloat s = parse_unsigned (c # r)"
      by (simp add: parseFloat_def)
    with assms(1) parse_unsigned_not_negative show False
      by auto
  qed
qed

section \<open>The buffer\<close>

lemma regex_match_suffix:
  "regex_match s = Some t \<Longrightarrow> full_match t \<and> (\<exists>p. s = p @ t)"
proof (induction s)
  case Nil
  then show ?case by simp
next
  case (Cons c cs)
  show ?case
  proof (cases "full_match (c # cs)")
    case True
    with Cons.prems show ?thesis by auto
  next
    case False
    with Cons.prems have "regex_match cs = Some t" by simp
    from Cons.IH [OF this] obtain p where "full_match t" "cs = p @ t" by blast
    then have "c # cs = (c # p) @ t" by simp
    with \<open>full_match t\<close> show ?thesis by blast
  qed
qed

lemma full_match_hd:
  assumes "full_match t"
  shows "t \<noteq> [] \<and> (is_digit (hd t) \<or> hd t = CHR ''.'' \<or> hd t = CHR ''-'')"
proof (cases t)
  case Nil
  with assms show ?thesis by (simp add: full_match_def)
next
  case (Cons c cs)
  show ?thesis
  proof (cases "c = CHR ''-'' \<or> is_digit c")
    case True
    with Cons show ?thesis by auto
  next
    case False
    with assms Cons have "c = CHR ''.''"
      by (simp add: full_match_def)
    with Cons show ?thesis by simp
  qed
qed

lemma normalizeInput_no_adjacent:
  assumes "no_adjacent_operators (expression s)"
  shows "no_adjacent_operators (expression (normalizeInput [c] s))"
proof -
  let ?e = "expression s"
  have dig: "test_digit [c] = is_digit c"
    by (simp add: test_digit_def)
  have op: "([c] \<in> operators) = is_operator_char c"
    by (simp add: is_operator_char_def)
  have at: "operators_has (at_last ?e) = is_operator_char (last ?e)" if "?e \<noteq> []"
    using that by (simp add: operators_has_def at_last_def is_operator_char_def)
  consider (digit) "is_digit c"
    | (dot) "\<not> is_digit c" "c = CHR ''.''"
    | (oper) "\<not> is_digit c" "c \<noteq> CHR ''.''" "is_operator_char c"
    | (other) "\<not> is_digit c" "c \<noteq> CHR ''.''" "\<not> is_operator_char c"
    by blast
  then show ?thesis
  proof cases
    case digit
    then have "expression (normalizeInput [c] s) = ?e @ [c]"
      by (simp add: normalizeInput_def dig)
    with assms digit digit_not_operator show ?thesis
      by (simp add: no_adjacent_operators_append)
  next
    case dot
    have nd: "\<not> is_operator_char CHR ''.''" "\<not> is_operator_char CHR ''0''"
      by (simp_all add: is_operator_char_iff)
    from dot have "expression (normalizeInput [c] s) = ?e \<or>
        expression (normalizeInput [c] s) = ?e @ ''.'' \<or>
        expression (normalizeInput [c] s) = ?e @ ''0.''"
      by (simp add: normalizeInput_def dig Let_def)
    with assms nd show ?thesis
      by (auto simp: no_adjacent_operators_append)
  next
    case oper
    show ?thesis
    proof (cases "?e = []")
      case True
      with oper have "expression (normalizeInput [c] s) = [] \<or>
          expression (normalizeInput [c] s) = ''-''"
        by (simp add: normalizeInput_def dig op)
      then show ?thesis by auto
    next
      case False
      show ?thesis
      proof (cases "is_operator_char (last ?e)")
        case True
        with False oper have eq: "expression (normalizeInput [c] s) = butlast ?e @ [c]"
          by (simp add: normalizeInput_def dig op at)
        from assms False have "no_adjacent_operators (butlast ?e @ [last ?e])"
          by simp
        with True have "no_adjacent_operators (butlast ?e)"
          and "butlast ?e = [] \<or> \<not> is_operator_char (last (butlast ?e))"
          unfolding no_adjacent_operators_append by simp_all
        then show ?thesis
          unfolding eq no_adjacent_operators_append by auto
      next
        case nop: False
        with False oper have eq: "expression (normalizeInput [c] s) = ?e @ [c]"
          by (simp add: normalizeInput_def dig op at)
        from assms nop show ?thesis
          unfolding eq no_adjacent_operators_append by simp
      qed
    qed
  next
    case other
    then have "normalizeInput [c] s = s"
      by (simp add: normalizeInput_def dig op)
    with assms show ?thesis by simp
  qed
qed

lemma percent_no_adjacent:
  assumes "no_adjacent_operators (expression s)"
  shows "no_adjacent_operators (expression (handleAction ''percent'' uuid s))"
proof (cases "regex_match (expression s)")
  case None
  then have "handleAction ''percent'' uuid s = s"
    by (simp add: handleAction_def)
  with assms show ?thesis by simp
next
  case (Some current)
  let ?e = "expression s"
  let ?v = "jsdiv (parseFloat current) num_100"
  let ?p = "take (length ?e - length current) ?e"
  from regex_match_suffix [OF Some] obtain p where fm: "full_match current" and e: "?e = p @ current"
    by blast
  then have p: "?p = p" by simp
  show ?thesis
  proof (cases "?e = [] \<or> operators_has (at_last ?e)")
    case True
    then have "handleAction ''percent'' uuid s = s"
      by (auto simp: handleAction_def)
    with assms show ?thesis by simp
  next
    case False
    with Some have eq: "expression (handleAction ''percent'' uuid s) = p @ numToString ?v"
      by (simp add: handleAction_def Let_def p)
    from assms e have np: "no_adjacent_operators p"
      and junction: "p = [] \<or> current = [] \<or>
        \<not> (is_operator_char (last p) \<and> is_operator_char (hd current))"
      by (simp_all add: no_adjacent_operators_append)
    have "\<not> (is_operator_char (last p) \<and> is_operator_char (hd (numToString ?v)))"
      if "p \<noteq> []"
    proof
      assume a: "is_operator_char (last p) \<and> is_operator_char (hd (numToString ?v))"
      with numToString_hd [of ?v] have "is_negative ?v" by blast
      then have "is_negative (parseFloat current)"
        by (rule jsdiv_100_negative)
      with full_match_hd [OF fm] have "hd current = CHR ''-''"
        by (intro parseFloat_negative) auto
      then have "is_operator_char (hd current)"
        by (simp add: is_operator_char_iff)
      with junction that a full_match_hd [OF fm] show False
        by blast
    qed
    with np numToString_no_adjacent [of ?v] show ?thesis
      unfolding eq no_adjacent_operators_append by blast
  qed
qed

lemma toResultString_no_adjacent: "no_adjacent_operators (toResultString v)"
proof (cases "isFinite v")
  case True
  then have "toResultString v =
      numToString (jsdiv (Math_round (jsmul (jsadd (toNumber v) EPSILON) num_1e12)) num_1e12)"
    by (simp add: toResultString_def Let_def)
  then show ?thesis
    by (simp only: numToString_no_adjacent)
next
  case False
  then have "toResultString v = ''Error''"
    by (simp add: toResultString_def)
  then show ?thesis
    by (simp add: is_operator_char_iff)
qed

lemma equals_no_adjacent:
  "no_adjacent_operators (expression (handleAction ''equals'' uuid s)) \<or>
   expression (handleAction ''equals'' uuid s) = expression s"
  by (simp add: handleAction_equals toResultString_no_adjacent)

lemma handleAction_no_adjacent:
  assumes "no_adjacent_operators (expression s)" and "action \<noteq> ''sign''"
  shows "no_adjacent_operators (expression (handleAction action uuid s))"
proof -
  consider (clear) "action = ''clear''" | (delete) "action = ''delete''"
    | (percent) "action = ''percent''" | (equals) "action = ''equals''"
    | (other) "action \<noteq> ''clear''" "action \<noteq> ''delete''" "action \<noteq> ''percent''"
        "action \<noteq> ''equals''"
    by blast
  then show ?thesis
  proof cases
    case clear
    then show ?thesis by (simp add: handleAction_def)
  next
    case delete
    with assms(1) show ?thesis
      by (simp add: handleAction_def no_adjacent_operators_butlast)
  next
    case percent
    with assms(1) show ?thesis
      by (simp add: percent_no_adjacent)
  next
    case equals
    with assms(1) equals_no_adjacent [of uuid s] show ?thesis
      by auto
  next
    case other
    with assms show ?thesis
      by (simp add: handleAction_def)
  qed
qed

lemma step_no_adjacent:
  assumes "no_adjacent_operators (expression s)" and "unsigned_event ev"
  shows "no_adjacent_operators (expression (step s ev))"
proof (cases ev)
  case (Input newChar)
  with assms(2) obtain c where "newChar = [c]"
    by (cases newChar) auto
  with Input assms(1) show ?thesis
    by (simp add: normalizeInput_no_adjacent)
next
  case (Action action uuid)
  with assms show ?thesis
    by (simp add: handleAction_no_adjacent)
next
  case ClearHistory
  with assms(1) show ?thesis
    by (simp add: clearHistory_def)
qed

lemma run_no_adjacent:
  "no_adjacent_operators (expression s) \<Longrightarrow> \<forall>ev \<in> set es. unsigned_event ev \<Longrightarrow>
     no_adjacent_operators (expression (run s es))"
proof (induction es arbitrary: s)
  case Nil
  then show ?case by (simp add: run_Nil)
next
  case (Cons ev es)
  from Cons.prems have "no_adjacent_operators (expression (step s ev))"
    by (intro step_no_adjacent) simp_all
  moreover from Cons.prems have "\<forall>ev \<in> set es. unsigned_event ev"
    by simp
  ultimately show ?case
    unfolding run_Cons by (rule Cons.IH)
qed

text \<open>
  Claim C2 says that no reachable buffer has two neighbouring operator characters. The
  \<^verbatim>\<open>sign\<close> command breaks this: typed \<^verbatim>\<open>5\<close>, \<^verbatim>\<open>+\<close>, \<^verbatim>\<open>3\<close> and then \<^verbatim>\<open>sign\<close>, the buffer is \<^verbatim>\<open>5+-3\<close>.
\<close>

theorem sign_puts_operators_together:
  "expression (run initial [Input ''5'', Input ''+'', Input ''3'', Action ''sign'' ''id'']) = ''5+-3''
   \<and> \<not> no_adjacent_operators
         (expression (run initial [Input ''5'', Input ''+'', Input ''3'', Action ''sign'' ''id'']))"
proof -
  have "run initial ([Input ''5'', Input ''+'', Input ''3''] @ [Action ''sign'' ''id'']) =
      step (run initial [Input ''5'', Input ''+'', Input ''3'']) (Action ''sign'' ''id'')"
    by (simp add: run_def)
  then have "run initial [Input ''5'', Input ''+'', Input ''3'', Action ''sign'' ''id''] =
      \<lparr>expression = ''5+-3'', history = []\<rparr>"
    by (simp add: run_5_plus_3 sign_5_plus_3)
  then show ?thesis
    by (simp add: is_operator_char_def operators_def)
qed

text \<open>
  Claim C2, amended. Every buffer reached from the empty buffer by single characters
  given to \<^verbatim>\<open>normalizeInput\<close> and by the commands \<^verbatim>\<open>clear\<close>, \<^verbatim>\<open>delete\<close>, \<^verbatim>\<open>percent\<close> and \<^verbatim>\<open>equals\<close>
  (any action but \<^verbatim>\<open>sign\<close>) has no two neighbouring operator characters.
\<close>

theorem buffer_without_sign_no_adjacent_operators:
  "\<forall>ev \<in> set es. unsigned_event ev \<Longrightarrow>
     no_adjacent_operators (expression (run initial es))"
  by (rule run_no_adjacent) (simp_all add: initial_def)

lemma step_equals_7:
  "step \<lparr>expression = ''7'', history = h\<rparr> (Action ''equals'' uuid) =
     \<lparr>expression = ''7'',
      history = take 20 (\<lparr>entry_expression = ''7'', entry_result = ''7'', entry_id = uuid\<rparr> # h)\<rparr>"
  by (simp add: handleAction_equals operators_has_def at_last_def operators_def
      evaluateExpression_7 toResultString_7)

theorem buffer_without_sign_no_adjacent_operators_witness:
  "unsigned_event (Input ''5'') \<and> unsigned_event (Input ''+'') \<and>
   unsigned_event (Input ''*'') \<and> unsigned_event (Input ''3'') \<and>
   unsigned_event (Action ''delete'' ''a'') \<and> unsigned_event (Action ''clear'' ''b'') \<and>
   unsigned_event (Input ''7'') \<and> unsigned_event (Action ''equals'' ''c'') \<and>
   unsigned_event (Input ''-'') \<and> unsigned_event (Input ''/'') \<and>
   expression (run initial [Input ''5'', Input ''+'', Input ''*'']) = ''5*'' \<and>
   expression (run initial [Input ''5'', Input ''+'', Input ''*'', Input ''3'',
       Action ''delete'' ''a'', Action ''clear'' ''b'', Input ''7'', Action ''equals'' ''c'',
       Input ''-'', Input ''/'']) = ''7/'' \<and>
   no_adjacent_operators ''7/''"
proof -
  have ev: "\<forall>ev \<in> set [Input ''5'', Input ''+'', Input ''*'', Input ''3'', Action ''delete'' ''a'',
       Action ''clear'' ''b'', Input ''7'', Action ''equals'' ''c'', Input ''-'', Input ''/''].
      unsigned_event ev"
    by simp
  have a: "run initial [Input ''5'', Input ''+'', Input ''*''] = \<lparr>expression = ''5*'', history = []\<rparr>"
    by (simp add: run_def normalizeInput_def initial_def test_digit_def is_digit_def
        operators_def operators_has_def at_last_def)
  have b: "run \<lparr>expression = ''5*'', history = []\<rparr>
        [Input ''3'', Action ''delete'' ''a'', Action ''clear'' ''b'', Input ''7''] =
      \<lparr>expression = ''7'', history = []\<rparr>"
    by (simp add: run_def normalizeInput_def handleAction_def test_digit_def is_digit_def)
  have c: "run \<lparr>expression = ''7'', history = []\<rparr> [Action ''equals'' ''c''] =
      \<lparr>expression = ''7'',
       history = [\<lparr>entry_expression = ''7'', entry_result = ''7'', entry_id = ''c''\<rparr>]\<rparr>"
    unfolding run_def foldl.simps step_equals_7 by simp
  have d: "expression (run \<lparr>expression = ''7'', history = h\<rparr> [Input ''-'', Input ''/'']) = ''7/''"
    for h
    by (simp add: run_def normalizeInput_def test_digit_def is_digit_def
        operators_def operators_has_def at_last_def)
  have split: "run s (xs @ ys) = run (run s xs) ys" for s xs ys
    by (simp add: run_def)
  have "run initial ([Input ''5'', Input ''+'', Input ''*''] @
        [Input ''3'', Action ''delete'' ''a'', Action ''clear'' ''b'', Input ''7''] @
        [Action ''equals'' ''c''] @ [Input ''-'', Input ''/'']) =
      run \<lparr>expression = ''7'',
           history = [\<lparr>entry_expression = ''7'', entry_result = ''7'', entry_id = ''c''\<rparr>]\<rparr>
        [Input ''-'', Input ''/'']"
    unfolding split a b c by (rule refl)
  then have e: "expression (run initial [Input ''5'', Input ''+'', Input ''*'', Input ''3'',
       Action ''delete'' ''a'', Action ''clear'' ''b'', Input ''7'', Action ''equals'' ''c'',
       Input ''-'', Input ''/'']) = ''7/''"
    by (simp add: d)
  from buffer_without_sign_no_adjacent_operators [OF ev] e
  have "no_adjacent_operators ''7/''"
    by simp
  with ev a e show ?thesis
    by simp
qed

end
